theory Spec2Isabelle
  imports Main "HOL-Library.Word"
begin

unbundle bit_operations_syntax

section \<open>Machine types of the target\<close>

text \<open>
  Both sketches are built for an AVR Arduino (\<open>ucode.ino\<close> reads its table with
  \<open>pgm_read_dword_near\<close>): \<open>unsigned char\<close> has 8 bits, \<open>int\<close>, \<open>unsigned int\<close> and
  \<open>unsigned short\<close> have 16 bits, \<open>unsigned long\<close> has 32 bits. Signed shifts follow GCC:
  \<open><<\<close> on \<open>int\<close> keeps the low 16 bits, \<open>>>\<close> on \<open>int\<close> is arithmetic. A shift by at least
  the width of the promoted left operand and an array index outside the array are undefined
  in C; the model returns \<open>None\<close> there.
\<close>

type_synonym uchar = "8 word"
type_synonym uint16 = "16 word"
type_synonym ulong = "32 word"

section \<open>sevenseg.ino: the digit-display encoder\<close>

definition digits :: "uchar list" where
  "digits = [0x88, 0xeb, 0x4c, 0x49, 0x2b, 0x19, 0x18, 0xcb,
             0x08, 0x09, 0x0a, 0x38, 0x9c, 0x68, 0x1c, 0x1e]"

definition off :: uchar where
  "off = 0xff"

text \<open>\<open>digits[i]\<close>: the array has 16 entries.\<close>

definition digits_at :: "uint16 \<Rightarrow> uchar option" where
  "digits_at i = (if unat i < length digits then Some (digits ! unat i) else None)"

text \<open>\<open>(unsigned int)(((int)address << 4) >> 4)\<close> on a 16-bit \<open>int\<close>.\<close>

definition shifted_value :: "uint16 \<Rightarrow> uint16" where
  "shifted_value address = signed_drop_bit 4 (push_bit 4 address)"

text \<open>The test \<open>value & 0x8000\<close>, and \<open>value\<close> and \<open>sign\<close> after the \<open>if\<close>.\<close>

definition is_negative :: "uint16 \<Rightarrow> bool" where
  "is_negative address = (shifted_value address AND 0x8000 \<noteq> 0)"

definition decimal_value :: "uint16 \<Rightarrow> uint16" where
  "decimal_value address =
     (if is_negative address then NOT (shifted_value address) + 1 else shifted_value address)"

definition decimal_sign :: "uint16 \<Rightarrow> uchar" where
  "decimal_sign address = (if is_negative address then 0x08 else 0)"

definition sevenseg_getOutputByte :: "uint16 \<Rightarrow> uchar option" where
  "sevenseg_getOutputByte address =
     (let digit = drop_bit 12 address AND 3 in
      if address > 0x7FFF then Some off
      else if address < 0x4000 then
        (if digit = 0 then digits_at (address AND 7)
         else if digit = 1 then digits_at (drop_bit 3 address AND 7)
         else if digit = 2 then digits_at (drop_bit 6 address AND 7)
         else digits_at (drop_bit 9 address AND 7))
      else
        (let value = decimal_value address; sign = decimal_sign address in
         if digit = 0 then map_option (\<lambda>d. d XOR sign) (digits_at (value mod 10))
         else if digit = 1 then
           (if value \<ge> 10 then digits_at ((value div 10) mod 10) else Some off)
         else if digit = 2 then
           (if value \<ge> 100 then digits_at ((value div 100) mod 10) else Some off)
         else
           (if value \<ge> 1000 then digits_at ((value div 1000) mod 10) else Some off)))"


text \<open>
  The same value as the specification words it: the low 15 bits of the address, sign-extended
  from bit 14, then turned into sign and magnitude. Used only to compare with
  \<open>decimal_value\<close> and \<open>decimal_sign\<close>.
\<close>

definition spec_signed15 :: "uint16 \<Rightarrow> int" where
  "spec_signed15 a = signed_take_bit 14 (take_bit 15 (uint a))"

definition spec_decimal_value :: "uint16 \<Rightarrow> int" where
  "spec_decimal_value a = \<bar>spec_signed15 a\<bar>"

definition spec_decimal_sign :: "uint16 \<Rightarrow> uchar" where
  "spec_decimal_sign a = (if spec_signed15 a < 0 then 0x08 else 0)"

definition spec_slot0 :: "uint16 \<Rightarrow> uchar" where
  "spec_slot0 a = digits ! nat (spec_decimal_value a mod 10) XOR spec_decimal_sign a"

section \<open>ucode.ino: the control-store encoder\<close>

subsection \<open>Control signals\<close>

definition U_ARO :: ulong where "U_ARO = 0x00000001"
definition U_SUO :: ulong where "U_SUO = 0x00000002"
definition U_PHO :: ulong where "U_PHO = 0x00000004"
definition U_PLO :: ulong where "U_PLO = 0x00000008"
definition U_IRO :: ulong where "U_IRO = 0x00000010"
definition U_HLT :: ulong where "U_HLT = 0x00000020"
definition U_RV0 :: ulong where "U_RV0 = 0x00000040"
definition U_RV1 :: ulong where "U_RV1 = 0x00000080"

definition U_MRI :: ulong where "U_MRI = 0x00000100"
definition U_MEI :: ulong where "U_MEI = 0x00000200"
definition U_MEO :: ulong where "U_MEO = 0x00000400"
definition U_SUB :: ulong where "U_SUB = 0x00000800"
definition U_OUT :: ulong where "U_OUT = 0x00001000"
definition U_ARI :: ulong where "U_ARI = 0x00002000"
definition U_BRI :: ulong where "U_BRI = 0x00004000"
definition U_JMP :: ulong where "U_JMP = 0x00008000"

definition U_JPC :: ulong where "U_JPC = 0x00010000"
definition U_JPN :: ulong where "U_JPN = 0x00020000"
definition U_FRI :: ulong where "U_FRI = 0x00040000"
definition U_PCE :: ulong where "U_PCE = 0x00080000"
definition U_IRI :: ulong where "U_IRI = 0x00100000"
definition U_RV2 :: ulong where "U_RV2 = 0x00200000"
definition U_RV3 :: ulong where "U_RV3 = 0x00400000"
definition U_END :: ulong where "U_END = 0x00800000"

definition U_PCO :: ulong where "U_PCO = U_PHO OR U_PLO"
definition U_ZEO :: ulong where "U_ZEO = 0"

definition U_FE0 :: ulong where "U_FE0 = U_PCO OR U_MRI"
definition U_FE1 :: ulong where "U_FE1 = U_MEO OR U_IRI OR U_PCE"
definition U_CUP :: ulong where "U_CUP = U_PHO OR U_IRO OR U_MRI"
definition U_ZEP :: ulong where "U_ZEP = U_IRO OR U_MRI"
definition U_AC0 :: ulong where "U_AC0 = U_IRO OR U_BRI"
definition U_AC1 :: ulong where "U_AC1 = U_SUO OR U_MRI"

subsection \<open>The table \<open>isa[64][8]\<close>\<close>

text \<open>
  One list per row, holding the initialisers the source writes, in its order (the comments
  are the source's). The four JMS rows use \<open>U_MRO\<close> and \<open>U_PCI\<close>, which \<open>ucode.ino\<close> defines
  nowhere: they are the parameters \<open>mro\<close> and \<open>pci\<close>.
\<close>

definition isa :: "ulong \<Rightarrow> ulong \<Rightarrow> ulong list list" where
  "isa mro pci =
    [[U_FE0, U_FE1, U_CUP, U_MEO OR U_BRI, U_SUO OR U_ARI OR U_FRI, U_END],   \<comment> \<open>000: ADDc\<close>
     [U_FE0, U_FE1, U_ZEP, U_MEO OR U_BRI, U_SUO OR U_ARI OR U_FRI, U_END],   \<comment> \<open>001: ADDz\<close>
     [U_FE0, U_FE1, U_IRO OR U_BRI, U_SUO OR U_ARI OR U_FRI, U_END],   \<comment> \<open>002: ADDi\<close>
     [U_FE0, U_FE1, U_AC0, U_AC1, U_MEO OR U_BRI, U_SUO OR U_ARI OR U_FRI, U_END],   \<comment> \<open>003: ADDa\<close>
     [U_FE0, U_FE1, U_CUP, U_MEO OR U_BRI, U_SUO OR U_SUB OR U_ARI OR U_FRI, U_END],   \<comment> \<open>004: SUBc\<close>
     [U_FE0, U_FE1, U_ZEP, U_MEO OR U_BRI, U_SUO OR U_SUB OR U_ARI OR U_FRI, U_END],   \<comment> \<open>005: SUBz\<close>
     [U_FE0, U_FE1, U_IRO OR U_BRI, U_SUO OR U_SUB OR U_ARI OR U_FRI, U_END],   \<comment> \<open>006: SUBi\<close>
     [U_FE0, U_FE1, U_AC0, U_AC1, U_ARO OR U_BRI, U_MEO OR U_ARI, U_SUO OR U_SUB OR U_ARI OR U_FRI, U_END],   \<comment> \<open>007: SUBa\<close>
     [U_FE0, U_FE1, U_CUP, U_ARO OR U_BRI, U_MEO OR U_ARI, U_SUO OR U_SUB OR U_ARI OR U_FRI, U_END],   \<comment> \<open>010: RSBc\<close>
     [U_FE0, U_FE1, U_ZEP, U_ARO OR U_BRI, U_MEO OR U_ARI, U_SUO OR U_SUB OR U_ARI OR U_FRI, U_END],   \<comment> \<open>011: RSBz\<close>
     [U_FE0, U_FE1, U_ARO OR U_BRI, U_IRO OR U_ARI, U_SUO OR U_SUB OR U_ARI OR U_FRI, U_END],   \<comment> \<open>012: RSBi\<close>
     [U_FE0, U_FE1, U_AC0, U_AC1, U_ARO OR U_BRI, U_MEO OR U_ARI, U_SUO OR U_SUB OR U_ARI OR U_FRI, U_END],   \<comment> \<open>013: RSBa\<close>
     [U_FE0, U_FE1, U_CUP, U_MEO OR U_ARI OR U_BRI, U_SUO OR U_ARI OR U_FRI, U_END],   \<comment> \<open>014: SHLc\<close>
     [U_FE0, U_FE1, U_ZEP, U_MEO OR U_ARI OR U_BRI, U_SUO OR U_ARI OR U_FRI, U_END],   \<comment> \<open>015: SHLz\<close>
     [U_FE0, U_FE1, U_IRO OR U_ARI OR U_BRI, U_SUO OR U_ARI OR U_FRI, U_END],   \<comment> \<open>016: SHLi\<close>
     [U_FE0, U_FE1, U_AC0, U_AC1, U_MEO OR U_ARI OR U_BRI, U_SUO OR U_ARI OR U_FRI, U_END],   \<comment> \<open>017: SHLa\<close>
     [U_FE0, U_FE1, U_CUP, U_MEO OR U_BRI, U_SUB OR U_FRI, U_END],   \<comment> \<open>020: CMPc\<close>
     [U_FE0, U_FE1, U_ZEP, U_MEO OR U_BRI, U_SUB OR U_FRI, U_END],   \<comment> \<open>021: CMPz\<close>
     [U_FE0, U_FE1, U_IRO OR U_BRI, U_SUB OR U_FRI, U_END],   \<comment> \<open>022: CMPi\<close>
     [U_FE0, U_FE1, U_AC0, U_AC1, U_MEO OR U_BRI, U_SUB OR U_FRI, U_END],   \<comment> \<open>023: CMPa\<close>
     [U_FE0, U_FE1, U_CUP, U_MEO OR U_ARI, U_END],   \<comment> \<open>024: LDAc\<close>
     [U_FE0, U_FE1, U_ZEP, U_MEO OR U_ARI, U_END],   \<comment> \<open>025: LDAz\<close>
     [U_FE0, U_FE1, U_IRO OR U_ARI, U_END],   \<comment> \<open>026: LDAi\<close>
     [U_FE0, U_FE1, U_AC0, U_AC1, U_MEO, U_ARI, U_END],   \<comment> \<open>027: LDAa\<close>
     [U_FE0, U_FE1, U_CUP, U_ARO OR U_MEI, U_END],   \<comment> \<open>030: STAc\<close>
     [U_FE0, U_FE1, U_ZEP, U_ARO OR U_MEI, U_END],   \<comment> \<open>031: STAz\<close>
     [U_FE0, U_FE1, U_CUP, U_ARO OR U_MEI, U_END],   \<comment> \<open>032: STAi\<close>
     [U_FE0, U_FE1, U_AC0, U_AC1, U_ARO OR U_MEI, U_END],   \<comment> \<open>033: STAa\<close>
     [U_FE0, U_FE1, U_CUP, U_MEO OR U_OUT, U_END],   \<comment> \<open>034: OUTc\<close>
     [U_FE0, U_FE1, U_ZEP, U_MEO OR U_OUT, U_END],   \<comment> \<open>035: OUTz\<close>
     [U_FE0, U_FE1, U_IRO OR U_OUT, U_END],   \<comment> \<open>036: OUTi\<close>
     [U_FE0, U_FE1, U_AC0, U_AC1, U_MEO OR U_OUT, U_END],   \<comment> \<open>037: OUTa\<close>
     [U_FE0, U_FE1, U_CUP, U_MEO OR U_JMP, U_END],   \<comment> \<open>040: JMPc\<close>
     [U_FE0, U_FE1, U_ZEP, U_MEO OR U_JMP, U_END],   \<comment> \<open>041: JMPz\<close>
     [U_FE0, U_FE1, U_IRO OR U_PHO OR U_JMP, U_END],   \<comment> \<open>042: JMPi\<close>
     [U_FE0, U_FE1, U_AC0, U_AC1, U_MEO OR U_JMP, U_END],   \<comment> \<open>043: JMPa\<close>
     [U_FE0, U_FE1, U_CUP, U_MEO OR U_JPC, U_END],   \<comment> \<open>044: JPCc\<close>
     [U_FE0, U_FE1, U_ZEP, U_MEO OR U_JPC, U_END],   \<comment> \<open>045: JPCz\<close>
     [U_FE0, U_FE1, U_IRO OR U_PHO OR U_JPC, U_END],   \<comment> \<open>046: JPCi\<close>
     [U_FE0, U_FE1, U_AC0, U_AC1, U_MEO OR U_JPC, U_END],   \<comment> \<open>047: JPCa\<close>
     [U_FE0, U_FE1, U_CUP, U_MEO OR U_JPN, U_END],   \<comment> \<open>050: JPNc\<close>
     [U_FE0, U_FE1, U_ZEP, U_MEO OR U_JPN, U_END],   \<comment> \<open>051: JPNz\<close>
     [U_FE0, U_FE1, U_IRO OR U_PHO OR U_JPN, U_END],   \<comment> \<open>052: JPNi\<close>
     [U_FE0, U_FE1, U_AC0, U_AC1, U_MEO OR U_JPN, U_END],   \<comment> \<open>053: JPNa\<close>
     [U_FE0, U_FE1, U_CUP, U_MEO OR U_MRI, U_PCO OR U_MEI, mro OR pci, U_PCE, U_END],   \<comment> \<open>050: JMSc\<close>
     [U_FE0, U_FE1, U_ZEP, U_MEO OR U_MRI, U_PCO OR U_MEI, mro OR pci, U_PCE, U_END],   \<comment> \<open>051: JMSz\<close>
     [U_FE0, U_FE1, U_IRO OR U_PHO OR U_MRI, U_PCO OR U_MEI, mro OR pci, U_PCE, U_END],   \<comment> \<open>052: JMSi\<close>
     [U_FE0, U_FE1, U_AC0, U_AC1, U_MEO OR U_MRI, U_PCO OR U_MEI, mro OR pci, U_PCE],   \<comment> \<open>053: JMSa\<close>
     [U_FE0, U_FE1, U_CUP, U_END],   \<comment> \<open>060: NOPc\<close>
     [U_FE0, U_FE1, U_ZEP, U_END],   \<comment> \<open>061: NOPz\<close>
     [U_FE0, U_FE1, U_END],   \<comment> \<open>062: NOPi\<close>
     [U_FE0, U_FE1, U_AC0, U_AC1, U_END],   \<comment> \<open>063: NOPa\<close>
     [U_FE0, U_FE1, U_CUP, U_MEO OR U_BRI, U_ARO OR U_MEI, U_ZEO OR U_ARI, U_SUO OR U_ARI, U_END],   \<comment> \<open>064: SWPc\<close>
     [U_FE0, U_FE1, U_ZEP, U_MEO OR U_BRI, U_ARO OR U_MEI, U_ZEO OR U_ARI, U_SUO OR U_ARI, U_END],   \<comment> \<open>065: SWPz\<close>
     [U_FE0, U_FE1, U_IRO OR U_ARI, U_END],   \<comment> \<open>066: SWPi\<close>
     [U_FE0, U_FE1, U_AC0, U_AC1, U_MEO OR U_BRI, U_ARO OR U_MEI, U_ZEO OR U_ARI, U_SUO OR U_ARI],   \<comment> \<open>067: SWPa\<close>
     [U_FE0, U_FE1, U_CUP, U_END],   \<comment> \<open>070: ILLc\<close>
     [U_FE0, U_FE1, U_ZEP, U_END],   \<comment> \<open>071: ILLz\<close>
     [U_FE0, U_FE1, U_END],   \<comment> \<open>072: ILLi\<close>
     [U_FE0, U_FE1, U_AC0, U_AC1, U_END],   \<comment> \<open>073: ILLa\<close>
     [U_FE0, U_FE1, U_HLT],   \<comment> \<open>074: HLTc\<close>
     [U_FE0, U_FE1, U_HLT],   \<comment> \<open>075: HLTz\<close>
     [U_FE0, U_FE1, U_HLT],   \<comment> \<open>076: HLTi\<close>
     [U_FE0, U_FE1, U_HLT]]   \<comment> \<open>077: HLTa\<close>"

text \<open>
  \<open>isa[op][cyc]\<close> for indices inside the declared bounds: the entries a row does not
  initialise are zero.
\<close>

definition controlWord :: "ulong \<Rightarrow> ulong \<Rightarrow> nat \<Rightarrow> nat \<Rightarrow> ulong" where
  "controlWord mro pci op cyc =
     (let row = isa mro pci ! op in if cyc < length row then row ! cyc else 0)"

text \<open>\<open>pgm_read_dword_near(&isa[inst][cycle])\<close>; an index outside \<open>[64][8]\<close> is undefined.\<close>

definition isa_at :: "ulong \<Rightarrow> ulong \<Rightarrow> uint16 \<Rightarrow> uint16 \<Rightarrow> ulong option" where
  "isa_at mro pci inst cycle =
     (if unat inst < 64 \<and> unat cycle < 8
      then Some (controlWord mro pci (unat inst) (unat cycle)) else None)"

text \<open>\<open>control >> n\<close> on a 32-bit \<open>unsigned long\<close>: undefined from \<open>n = 32\<close> on.\<close>

definition shr_ulong :: "ulong \<Rightarrow> uint16 \<Rightarrow> ulong option" where
  "shr_ulong control n = (if unat n < 32 then Some (drop_bit (unat n) control) else None)"

definition ucode_getOutputByte :: "ulong \<Rightarrow> ulong \<Rightarrow> uint16 \<Rightarrow> uchar option" where
  "ucode_getOutputByte mro pci address =
     (if address > 2048 then Some 0
      else
        (let bank = drop_bit 9 address;
             cycle = drop_bit 6 address AND 7;
             inst = address AND 0x3F
         in case isa_at mro pci inst cycle of
              None \<Rightarrow> None
            | Some control \<Rightarrow> map_option ucast (shr_ulong control (push_bit 3 bank))))"

section \<open>The programmer board\<close>

text \<open>
  Both sketches drive the same wiring: pin 2 and pin 3 are the data and clock inputs of a
  16-bit shift register whose outputs are the address lines of the memory device, pins 5 to 12
  are its eight data lines, pin 4 is its write enable and pin 13 its output enable (both
  active low).
\<close>

definition SHIFT_DATA :: nat where "SHIFT_DATA = 2"
definition SHIFT_CLOCK :: nat where "SHIFT_CLOCK = 3"
definition EEPROM_WE :: nat where "EEPROM_WE = 4"
definition EEPROM_OE :: nat where "EEPROM_OE = 13"
definition EEPROM_DATA_0 :: nat where "EEPROM_DATA_0 = 5"
definition EEPROM_WRITE_DELAY :: nat where "EEPROM_WRITE_DELAY = 2"

abbreviation (input) HIGH :: bool where "HIGH \<equiv> True"
abbreviation (input) LOW :: bool where "LOW \<equiv> False"
abbreviation (input) OUTPUT :: bool where "OUTPUT \<equiv> True"
abbreviation (input) INPUT :: bool where "INPUT \<equiv> False"

text \<open>
  The state the sketches act on: the level last written to each pin, the mode of each pin,
  the shift register, the contents of the memory device with the list of the write cycles it
  has seen (address and byte, oldest first), and the characters sent to the serial port.
\<close>

record board =
  pin_level :: "nat \<Rightarrow> bool"
  pin_output :: "nat \<Rightarrow> bool"
  addr_latch :: uint16
  eeprom :: "uint16 \<Rightarrow> uchar"
  writes :: "(uint16 \<times> uchar) list"
  serial :: string

text \<open>The byte on the data lines: bit \<open>k\<close> is the level of pin \<open>EEPROM_DATA_0 + k\<close>.\<close>

definition data_bus :: "board \<Rightarrow> uchar" where
  "data_bus s = horner_sum of_bool 2 (map (\<lambda>k. pin_level s (EEPROM_DATA_0 + k)) [0..<8])"

text \<open>
  Modelled from the spec: the shift register, the memory device and the Arduino core's
  \<open>digitalWrite\<close> and \<open>digitalRead\<close>, none of which is in the repository; their reactions
  follow the specification's programming protocol. A rising edge on the clock pin shifts the level of the data pin into
  the low end of the shift register, so that after 16 clocks the bit sent first is bit 15. A
  falling edge on the write-enable pin stores the byte on the data lines at the address the
  shift register holds. With output enable low, a data pin in input mode reads the bit of the
  byte stored at that address.
\<close>

definition digitalWrite :: "nat \<Rightarrow> bool \<Rightarrow> board \<Rightarrow> board" where
  "digitalWrite pin v s =
     (let s' = s\<lparr>pin_level := (pin_level s)(pin := v)\<rparr> in
      if pin = SHIFT_CLOCK \<and> v \<and> \<not> pin_level s SHIFT_CLOCK
      then s'\<lparr>addr_latch := push_bit 1 (addr_latch s) OR of_bool (pin_level s SHIFT_DATA)\<rparr>
      else if pin = EEPROM_WE \<and> \<not> v \<and> pin_level s EEPROM_WE
      then s'\<lparr>eeprom := (eeprom s)(addr_latch s := data_bus s),
              writes := writes s @ [(addr_latch s, data_bus s)]\<rparr>
      else s')"

definition digitalRead :: "nat \<Rightarrow> board \<Rightarrow> bool" where
  "digitalRead pin s =
     (if EEPROM_DATA_0 \<le> pin \<and> pin < EEPROM_DATA_0 + 8
         \<and> \<not> pin_output s pin \<and> \<not> pin_level s EEPROM_OE
      then bit (eeprom s (addr_latch s)) (pin - EEPROM_DATA_0)
      else pin_level s pin)"

definition pinMode :: "nat \<Rightarrow> bool \<Rightarrow> board \<Rightarrow> board" where
  "pinMode pin m s = s\<lparr>pin_output := (pin_output s)(pin := m)\<rparr>"

text \<open>
  Modelled from the spec: \<open>pinMode\<close> above, \<open>delay\<close> and \<open>Serial.write\<close> of the Arduino core.
  Time is not modelled: \<open>delay\<close> leaves the state as it is. \<open>Serial.begin\<close> and \<open>Serial.end\<close>
  send nothing and are left out.
\<close>

definition delay :: "nat \<Rightarrow> board \<Rightarrow> board" where
  "delay ms s = s"

text \<open>\<open>Serial.write\<close> of one character and of a string.\<close>

definition Serial_write :: "char \<Rightarrow> board \<Rightarrow> board" where
  "Serial_write c s = s\<lparr>serial := serial s @ [c]\<rparr>"

definition Serial_write_str :: "string \<Rightarrow> board \<Rightarrow> board" where
  "Serial_write_str str s = s\<lparr>serial := serial s @ str\<rparr>"

text \<open>
  Modelled from the spec: \<open>shiftOut(dataPin, clockPin, MSBFIRST, val)\<close> of the Arduino core,
  which is not in the repository: for the bits 7 down to 0 of \<open>val\<close>, set the data pin, then
  pulse the clock pin high and low.
\<close>

definition shiftOut :: "nat \<Rightarrow> nat \<Rightarrow> uchar \<Rightarrow> board \<Rightarrow> board" where
  "shiftOut dataPin clockPin val s =
     fold (\<lambda>i s. digitalWrite clockPin LOW
                   (digitalWrite clockPin HIGH
                     (digitalWrite dataPin (bit val (7 - i)) s))) [0..<8] s"

section \<open>The code shared by the two sketches\<close>

definition writeEepromAddress :: "uint16 \<Rightarrow> nat \<Rightarrow> nat \<Rightarrow> board \<Rightarrow> board" where
  "writeEepromAddress address dataPin clockPin s =
     shiftOut dataPin clockPin (ucast address)
       (shiftOut dataPin clockPin (ucast (drop_bit 8 address)) s)"

text \<open>
  The loop \<open>for (i = dataPin0; i < dataPin0 + 8; ++i, data >>= 1) digitalWrite(i, data & 1)\<close>
  carries \<open>data\<close> with the state.
\<close>

definition writeEepromByte :: "uchar \<Rightarrow> nat \<Rightarrow> nat \<Rightarrow> board \<Rightarrow> board" where
  "writeEepromByte data dataPin0 enablePin s =
     (let (data', s1) =
            fold (\<lambda>i (d, s). (drop_bit 1 d, digitalWrite i (d AND 1 \<noteq> 0) s))
              [dataPin0..<dataPin0 + 8] (data, s)
      in digitalWrite enablePin HIGH (digitalWrite enablePin LOW s1))"

definition hexdigits :: string where
  "hexdigits = ''0123456789abcdef''"

text \<open>
  The three \<open>Serial.write\<close> calls that end an iteration of \<open>dumpEeprom\<close>; both indices into
  the digit string are below 16.
\<close>

definition write_hex :: "uint16 \<Rightarrow> uchar \<Rightarrow> board \<Rightarrow> board" where
  "write_hex i data s =
     Serial_write (if (i + 1) AND 15 \<noteq> 0 then CHR '' '' else CHR 0x0A)
       (Serial_write (hexdigits ! unat (data AND 15))
         (Serial_write (hexdigits ! unat (drop_bit 4 data)) s))"

text \<open>A counted loop whose body may be undefined.\<close>

fun for_each :: "nat list \<Rightarrow> (nat \<Rightarrow> 's \<Rightarrow> 's option) \<Rightarrow> 's \<Rightarrow> 's option" where
  "for_each [] body s = Some s"
| "for_each (i # is) body s =
     (case body i s of None \<Rightarrow> None | Some s' \<Rightarrow> for_each is body s')"

section \<open>sevenseg.ino: programming and dump\<close>

text \<open>
  The inner loop of \<open>dumpEeprom\<close>, over what \<open>digitalRead\<close> returns for each pin:
  \<open>data |= (digitalRead(EEPROM_DATA_0 + k) == HIGH ? 1 : 0) << k\<close>, computed in \<open>int\<close> and
  stored back into an \<open>unsigned char\<close>.
\<close>

definition sevenseg_readByte :: "(nat \<Rightarrow> bool) \<Rightarrow> uchar" where
  "sevenseg_readByte rd =
     fold (\<lambda>k data. ucast ((ucast data :: uint16)
                         OR push_bit k (if rd (EEPROM_DATA_0 + k) = HIGH then 1 else 0)))
       [0..<8] 0"

definition sevenseg_dumpEeprom :: "nat \<Rightarrow> nat \<Rightarrow> board \<Rightarrow> board" where
  "sevenseg_dumpEeprom begin end s =
     (let s1 = digitalWrite EEPROM_WE HIGH s;
          s2 = fold (\<lambda>i. pinMode (EEPROM_DATA_0 + i) INPUT) [0..<8] s1;
          s3 = digitalWrite EEPROM_OE LOW s2
      in fold (\<lambda>i s.
           let s' = writeEepromAddress (of_nat i) SHIFT_DATA SHIFT_CLOCK s;
               data = sevenseg_readByte (\<lambda>pin. digitalRead pin s')
           in write_hex (of_nat i) data s') [begin..<end] s3)"

text \<open>
  The pin set-up at the start of \<open>setup\<close>. The two sketches differ only in how the loop over
  the eight data pins counts (\<open>EEPROM_DATA_0 + i\<close> for \<open>i\<close> below 8 in \<open>sevenseg.ino\<close>).
\<close>

definition setup_pins :: "board \<Rightarrow> board" where
  "setup_pins s =
     (let s1 = pinMode EEPROM_OE OUTPUT (digitalWrite EEPROM_OE HIGH s);
          s2 = pinMode EEPROM_WE OUTPUT (digitalWrite EEPROM_WE HIGH s1);
          s3 = fold (\<lambda>i. pinMode i OUTPUT) [EEPROM_DATA_0..<EEPROM_DATA_0 + 8] s2;
          s4 = digitalWrite SHIFT_CLOCK LOW (digitalWrite SHIFT_DATA LOW s3)
      in pinMode SHIFT_CLOCK OUTPUT (pinMode SHIFT_DATA OUTPUT s4))"

text \<open>The body of the inner programming loop, \<open>address = (i << 12) | j\<close>.\<close>

definition sevenseg_program :: "nat \<Rightarrow> nat \<Rightarrow> board \<Rightarrow> board option" where
  "sevenseg_program i j s =
     (let address = push_bit 12 (of_nat i) OR of_nat j :: uint16;
          s1 = delay 10 (writeEepromAddress address SHIFT_DATA SHIFT_CLOCK s)
      in case sevenseg_getOutputByte address of
           None \<Rightarrow> None
         | Some data \<Rightarrow> Some (writeEepromByte data EEPROM_DATA_0 EEPROM_WE s1))"

definition sevenseg_setup :: "board \<Rightarrow> board option" where
  "sevenseg_setup s =
     (let s1 = setup_pins (Serial_write_str ''Programming'' s) in
      case for_each [0..<8]
             (\<lambda>i s. map_option (Serial_write CHR ''.'')
                      (for_each [0..<4096] (sevenseg_program i) s)) s1 of
        None \<Rightarrow> None
      | Some s2 \<Rightarrow>
          Some (sevenseg_dumpEeprom 0 4096
                 (Serial_write_str (CHR 0x0A # ''Finished'' @ [CHR 0x0A]) (delay 10 s2))))"

section \<open>ucode.ino: programming and dump\<close>

text \<open>
  The inner loop of \<open>dumpEeprom\<close>, for \<open>k\<close> from \<open>EEPROM_DATA_0 + 7\<close> down to \<open>EEPROM_DATA_0\<close>:
  \<open>data = (data << 1) | digitalRead(k)\<close>.
\<close>

definition ucode_readByte :: "(nat \<Rightarrow> bool) \<Rightarrow> uchar" where
  "ucode_readByte rd =
     fold (\<lambda>k data. ucast (push_bit 1 (ucast data :: uint16) OR of_bool (rd k)))
       (rev [EEPROM_DATA_0..<EEPROM_DATA_0 + 8]) 0"

definition ucode_dumpEeprom :: "nat \<Rightarrow> nat \<Rightarrow> board \<Rightarrow> board" where
  "ucode_dumpEeprom begin end s =
     (let s1 = digitalWrite EEPROM_WE HIGH s;
          s2 = fold (\<lambda>i. pinMode i INPUT) [EEPROM_DATA_0..<EEPROM_DATA_0 + 8] s1;
          s3 = digitalWrite EEPROM_OE LOW s2
      in fold (\<lambda>i s.
           let s' = writeEepromAddress (of_nat i) SHIFT_DATA SHIFT_CLOCK s;
               data = ucode_readByte (\<lambda>pin. digitalRead pin s')
           in write_hex (of_nat i) data s') [begin..<end] s3)"

text \<open>The body of the inner programming loop, \<open>address = (i << 9) | j\<close>.\<close>

definition ucode_program :: "ulong \<Rightarrow> ulong \<Rightarrow> nat \<Rightarrow> nat \<Rightarrow> board \<Rightarrow> board option" where
  "ucode_program mro pci i j s =
     (let address = push_bit 9 (of_nat i) OR of_nat j :: uint16;
          s1 = delay EEPROM_WRITE_DELAY (writeEepromAddress address SHIFT_DATA SHIFT_CLOCK s)
      in case ucode_getOutputByte mro pci address of
           None \<Rightarrow> None
         | Some data \<Rightarrow> Some (writeEepromByte data EEPROM_DATA_0 EEPROM_WE s1))"

text \<open>The body of the loop that fills the addresses 2048 to 8191 with zero.\<close>

definition ucode_fill :: "nat \<Rightarrow> board \<Rightarrow> board" where
  "ucode_fill i s =
     (let s1 = delay EEPROM_WRITE_DELAY
                 (writeEepromAddress (of_nat i) SHIFT_DATA SHIFT_CLOCK s);
          s2 = writeEepromByte 0 EEPROM_DATA_0 EEPROM_WE s1
      in if ((of_nat i + 1 :: uint16) AND 511) = 0 then Serial_write CHR ''.'' s2 else s2)"

definition ucode_setup :: "ulong \<Rightarrow> ulong \<Rightarrow> board \<Rightarrow> board option" where
  "ucode_setup mro pci s =
     (let s1 = setup_pins (Serial_write_str ''Programming'' s) in
      case for_each [0..<4]
             (\<lambda>i s. map_option (Serial_write CHR ''.'')
                      (for_each [0..<512] (ucode_program mro pci i) s)) s1 of
        None \<Rightarrow> None
      | Some s2 \<Rightarrow>
          (let s3 = fold ucode_fill [2048..<8192] s2;
               s4 = Serial_write_str (CHR 0x0A # ''Finished'' @ [CHR 0x0A])
                      (delay (EEPROM_WRITE_DELAY * 10) s3)
           in Some (ucode_dumpEeprom 0 512 s4)))"

section \<open>Notions used to state what a run of a sketch does\<close>

text \<open>Between two write cycles the clock pin is low and write enable is high.\<close>

definition idle :: "board \<Rightarrow> bool" where
  "idle s \<longleftrightarrow> \<not> pin_level s SHIFT_CLOCK \<and> pin_level s EEPROM_WE"

text \<open>The memory contents after a list of write cycles, oldest first.\<close>

definition store :: "(uint16 \<times> uchar) list \<Rightarrow> (uint16 \<Rightarrow> uchar) \<Rightarrow> (uint16 \<Rightarrow> uchar)" where
  "store ws m = fold (\<lambda>(a, d) m. m(a := d)) ws m"

text \<open>
  From \<open>s\<close> the board reaches \<open>s'\<close>, idle again, having performed exactly the write cycles
  \<open>ws\<close> and sent exactly the characters \<open>out\<close>.
\<close>

definition steps_to :: "board \<Rightarrow> (uint16 \<times> uchar) list \<Rightarrow> string \<Rightarrow> board \<Rightarrow> bool" where
  "steps_to s ws out s' \<longleftrightarrow>
     idle s' \<and> writes s' = writes s @ ws \<and> eeprom s' = store ws (eeprom s)
     \<and> serial s' = serial s @ out"

text \<open>The text of one dumped byte at loop index \<open>i\<close>.\<close>

definition dump_text :: "nat \<Rightarrow> uchar \<Rightarrow> string" where
  "dump_text i d =
     [hexdigits ! unat (drop_bit 4 d), hexdigits ! unat (d AND 15),
      if (i + 1) mod 16 = 0 then CHR 0x0A else CHR '' '']"

text \<open>A board at rest, every pin low and configured as output, the memory zeroed.\<close>

definition board0 :: board where
  "board0 = \<lparr>pin_level = (\<lambda>p. False), pin_output = (\<lambda>p. True), addr_latch = 0,
             eeprom = (\<lambda>a. 0), writes = [], serial = []\<rparr>"

text \<open>
  While the dump runs, the clock pin is low, the data pins are inputs, output enable is low
  and the memory holds \<open>m\<close>.
\<close>

definition reading :: "(uint16 \<Rightarrow> uchar) \<Rightarrow> board \<Rightarrow> bool" where
  "reading m s \<longleftrightarrow>
     \<not> pin_level s SHIFT_CLOCK \<and> (\<forall>k<8. \<not> pin_output s (EEPROM_DATA_0 + k))
     \<and> \<not> pin_level s EEPROM_OE \<and> eeprom s = m"

text \<open>
  The byte each sketch is to leave at address \<open>a\<close>: what its \<open>getOutputByte\<close> returns and, for
  the control store, zero from address 2048 on.
\<close>

definition sevenseg_image :: "nat \<Rightarrow> uchar" where
  "sevenseg_image a = the (sevenseg_getOutputByte (of_nat a))"

definition ucode_image :: "ulong \<Rightarrow> ulong \<Rightarrow> nat \<Rightarrow> uchar" where
  "ucode_image mro pci a =
     (if a < 2048 then the (ucode_getOutputByte mro pci (of_nat a)) else 0)"

lemmas signal_defs =
  U_ARO_def U_SUO_def U_PHO_def U_PLO_def U_IRO_def U_HLT_def U_RV0_def U_RV1_def
  U_MRI_def U_MEI_def U_MEO_def U_SUB_def U_OUT_def U_ARI_def U_BRI_def U_JMP_def
  U_JPC_def U_JPN_def U_FRI_def U_PCE_def U_IRI_def U_RV2_def U_RV3_def U_END_def
  U_PCO_def U_ZEO_def U_FE0_def U_FE1_def U_CUP_def U_ZEP_def U_AC0_def U_AC1_def

section \<open>Facts about the digit-display encoder\<close>

lemma and3_cases:
  fixes x :: uint16
  shows "x AND 3 = 0 \<or> x AND 3 = 1 \<or> x AND 3 = 2 \<or> x AND 3 = 3"
proof -
  have "unat (x AND 3) < 4"
    using word_and_le1 [of x 3] by (simp add: word_le_nat_alt)
  then have "unat (x AND 3) = 0 \<or> unat (x AND 3) = 1 \<or> unat (x AND 3) = 2 \<or> unat (x AND 3) = 3"
    by arith
  then show ?thesis
    by (auto simp: word_unat_eq_iff)
qed

lemma and7_lt:
  fixes x :: uint16
  shows "unat (x AND 7) < 8"
  using word_and_le1 [of x 7] by (simp add: word_le_nat_alt)

lemma digits_at_and7: "digits_at (x AND 7) = Some (digits ! unat (x AND 7))"
  using and7_lt [of x] by (simp add: digits_at_def digits_def)


lemma sint_shifted_value: "sint (shifted_value a) = signed_take_bit 11 (uint a)"
  by (rule bit_eqI) (auto simp: shifted_value_def bit_simps bit_sint_iff bit_uint_iff)

lemma signed12_range: "- 2048 \<le> signed_take_bit 11 (k::int) \<and> signed_take_bit 11 k < 2048"
  using signed_take_bit_int_greater_eq_minus_exp [of 11 k] signed_take_bit_int_less_exp [of 11 k]
  by simp

lemma is_negative_iff: "is_negative a \<longleftrightarrow> signed_take_bit 11 (uint a) < 0"
proof -
  have "shifted_value a AND 0x8000 \<noteq> 0 \<longleftrightarrow> bit (shifted_value a) 15"
    using and_exp_eq_0_iff_not_bit [of "shifted_value a" 15] by simp
  also have "\<dots> \<longleftrightarrow> sint (shifted_value a) < 0"
    using bit_last_iff [of "shifted_value a"] by simp
  finally show ?thesis by (simp add: is_negative_def sint_shifted_value)
qed

lemma uint_decimal_value: "uint (decimal_value a) = \<bar>signed_take_bit 11 (uint a)\<bar>"
proof -
  define s where "s = signed_take_bit 11 (uint a)"
  have w: "shifted_value a = word_of_int s"
    unfolding s_def sint_shifted_value [symmetric] by simp
  have r: "- 2048 \<le> s" "s < 2048"
    using signed12_range [of "uint a"] by (auto simp: s_def)
  have n: "is_negative a \<longleftrightarrow> s < 0"
    by (simp only: is_negative_iff s_def)
  have m: "\<And>k::int. 0 \<le> k \<Longrightarrow> k \<le> 2048 \<Longrightarrow> uint (word_of_int k :: uint16) = k"
    by (simp add: uint_word_of_int)
  have "uint (decimal_value a) = \<bar>s\<bar>"
  proof (cases "s < 0")
    case True
    have "NOT (shifted_value a) + 1 = - shifted_value a"
      by (simp only: minus_eq_not_plus_1)
    with True have "decimal_value a = - word_of_int s"
      using n by (simp only: decimal_value_def w if_True)
    then have "decimal_value a = word_of_int (- s)"
      by simp
    then show ?thesis using True r m [of "- s"] by simp
  next
    case False
    then have "decimal_value a = word_of_int s"
      using n by (simp add: decimal_value_def w)
    then show ?thesis using False r m [of s] by simp
  qed
  then show ?thesis by (simp only: s_def)
qed

lemma digits_at_mod10: "digits_at (x mod 10) = Some (digits ! (unat x mod 10))"
proof -
  have "unat (x mod 10) = unat x mod 10" by (simp add: unat_mod)
  moreover have "unat x mod 10 < 16" using mod_less_divisor [of 10 "unat x"] by linarith
  ultimately show ?thesis by (simp add: digits_at_def digits_def)
qed


lemma decimal_mode_body:
  assumes "0x4000 \<le> a" "a \<le> 0x7FFF"
  shows "sevenseg_getOutputByte a =
     (let digit = drop_bit 12 a AND 3; value = decimal_value a; sign = decimal_sign a in
         if digit = 0 then Some (digits ! (unat value mod 10) XOR sign)
         else if digit = 1 then
           (if value \<ge> 10 then Some (digits ! ((unat value div 10) mod 10)) else Some off)
         else if digit = 2 then
           (if value \<ge> 100 then Some (digits ! ((unat value div 100) mod 10)) else Some off)
         else
           (if value \<ge> 1000 then Some (digits ! ((unat value div 1000) mod 10)) else Some off))"
proof -
  have g: "\<not> a > 0x7FFF" "\<not> a < 0x4000"
    using assms by (simp_all add: word_less_nat_alt word_le_nat_alt)
  show ?thesis
    using g by (simp add: sevenseg_getOutputByte_def Let_def digits_at_mod10 unat_div)
qed

lemma octal_mode_body:
  assumes "a < 0x4000"
  shows "sevenseg_getOutputByte a =
           Some (digits ! unat (drop_bit (3 * unat (drop_bit 12 a AND 3)) a AND 7))"
proof -
  have le: "\<not> a > 0x7FFF"
    using assms by (simp add: word_less_nat_alt)
  show ?thesis
    using and3_cases [of "drop_bit 12 a"] assms le
    by (auto simp: sevenseg_getOutputByte_def Let_def digits_at_and7)
qed

lemma decimal_magnitude:
  "unat (decimal_value a) = nat \<bar>signed_take_bit 11 (uint a)\<bar>"
  using uint_decimal_value [of a] by (simp flip: nat_uint_eq)

lemma decimal_sign_pattern:
  "decimal_sign a = (if signed_take_bit 11 (uint a) < 0 then 0x08 else 0)"
  by (simp only: decimal_sign_def is_negative_iff)

lemma decimal_slot0:
  assumes "0x4000 \<le> a" "a \<le> 0x7FFF" "drop_bit 12 a AND 3 = 0"
  shows "sevenseg_getOutputByte a =
           Some (digits ! (unat (decimal_value a) mod 10) XOR decimal_sign a)"
  using assms(3) by (simp add: decimal_mode_body [OF assms(1,2)] Let_def)

lemma decimal_slot_high:
  assumes "0x4000 \<le> a" "a \<le> 0x7FFF" "k \<in> {1, 2, 3}" "unat (drop_bit 12 a AND 3) = k"
  shows "sevenseg_getOutputByte a =
           (if unat (decimal_value a) < 10 ^ k then Some 0xFF
            else Some (digits ! ((unat (decimal_value a) div 10 ^ k) mod 10)))"
proof -
  note body = decimal_mode_body [OF assms(1,2)]
  consider "k = 1" | "k = 2" | "k = 3"
    using assms(3) by auto
  then show ?thesis
  proof cases
    case 1
    then have "unat (drop_bit 12 a AND 3) = 1" using assms(4) by simp
    then show ?thesis unfolding 1
      by (auto simp: body Let_def off_def word_le_nat_alt word_unat_eq_iff)
  next
    case 2
    then have "unat (drop_bit 12 a AND 3) = 2" using assms(4) by simp
    then show ?thesis unfolding 2
      by (auto simp: body Let_def off_def word_le_nat_alt word_unat_eq_iff)
  next
    case 3
    then have "unat (drop_bit 12 a AND 3) = 3" using assms(4) by simp
    then show ?thesis unfolding 3
      by (auto simp: body Let_def off_def word_le_nat_alt word_unat_eq_iff)
  qed
qed

text \<open>
  Claim C2. In octal mode (every address below \<open>0o40000 = 0x4000\<close>) the byte is
  \<open>digits[(a >> (3*d)) & 7]\<close> with \<open>d = (a >> 12) & 3\<close> the digit slot; address \<open>0o0005\<close>
  gives \<open>0x19\<close>, the table's pattern for digit 5.
\<close>

theorem octal_mode_digit:
  "(\<forall>a. a < 0x4000 \<longrightarrow>
      sevenseg_getOutputByte a =
        Some (digits ! unat (drop_bit (3 * unat (drop_bit 12 a AND 3)) a AND 7)))
   \<and> sevenseg_getOutputByte 5 = Some 0x19 \<and> digits ! 5 = 0x19"
proof -
  have "sevenseg_getOutputByte 5 = Some 0x19"
    by (simp add: sevenseg_getOutputByte_def digits_at_def digits_def)
  moreover have "digits ! 5 = 0x19"
    by (simp add: digits_def)
  ultimately show ?thesis
    using octal_mode_body by blast
qed

text \<open>The theorem at address \<open>0x1234\<close>: slot 1, octal digit 6.\<close>

theorem octal_mode_digit_witness:
  "(0x1234 :: uint16) < 0x4000 \<and> sevenseg_getOutputByte 0x1234 = Some 0x18"
proof -
  have h: "(0x1234 :: uint16) < 0x4000" by simp
  have "sevenseg_getOutputByte 0x1234 =
        Some (digits ! unat (drop_bit (3 * unat (drop_bit 12 (0x1234 :: uint16) AND 3)) (0x1234 :: uint16) AND 7))"
    using octal_mode_digit h by blast
  then show ?thesis using h by (simp add: digits_def)
qed


text \<open>
  Claim C3, as amended. In decimal mode (\<open>0x4000 \<le> a \<le> 0x7FFF\<close>) the displayed value is the
  low 12 bits of the address sign-extended from bit 11 (bits 12 and 13 are the digit slot,
  bit 14 selects the mode); a negative value is negated and the sign pattern \<open>0x08\<close> is
  remembered. Digit slot 0 is \<open>digits[value % 10]\<close> XOR that sign pattern, and in the slots
  1 to 3 the byte depends on the magnitude only, not on the sign.
\<close>

theorem decimal_value_sign_extends_12_bits:
  assumes "0x4000 \<le> a" "a \<le> 0x7FFF"
  shows "uint (decimal_value a) = \<bar>signed_take_bit 11 (uint a)\<bar>
       \<and> decimal_sign a = (if signed_take_bit 11 (uint a) < 0 then 0x08 else 0)
       \<and> (drop_bit 12 a AND 3 = 0 \<longrightarrow>
            sevenseg_getOutputByte a =
              Some (digits ! nat (\<bar>signed_take_bit 11 (uint a)\<bar> mod 10) XOR decimal_sign a))
       \<and> (\<forall>b. 0x4000 \<le> b \<and> b \<le> 0x7FFF \<and> drop_bit 12 b AND 3 = drop_bit 12 a AND 3
              \<and> drop_bit 12 a AND 3 \<noteq> 0 \<and> decimal_value b = decimal_value a
            \<longrightarrow> sevenseg_getOutputByte b = sevenseg_getOutputByte a)"
proof -
  have v: "uint (decimal_value a) = \<bar>signed_take_bit 11 (uint a)\<bar>"
    by (rule uint_decimal_value)
  have s: "decimal_sign a = (if signed_take_bit 11 (uint a) < 0 then 0x08 else 0)"
    by (simp only: decimal_sign_def is_negative_iff)
  have n: "unat (decimal_value a) mod 10 = nat (\<bar>signed_take_bit 11 (uint a)\<bar> mod 10)"
    unfolding v [symmetric] by (simp add: nat_mod_distrib)
  have z: "drop_bit 12 a AND 3 = 0 \<longrightarrow>
            sevenseg_getOutputByte a =
              Some (digits ! nat (\<bar>signed_take_bit 11 (uint a)\<bar> mod 10) XOR decimal_sign a)"
    unfolding n [symmetric] by (simp add: decimal_mode_body [OF assms] Let_def)
  have h: "sevenseg_getOutputByte b = sevenseg_getOutputByte a"
    if "0x4000 \<le> b" "b \<le> 0x7FFF" "drop_bit 12 b AND 3 = drop_bit 12 a AND 3"
       "drop_bit 12 a AND 3 \<noteq> 0" "decimal_value b = decimal_value a" for b
    using that by (simp add: decimal_mode_body [OF assms] decimal_mode_body [OF that(1,2)] Let_def)
  show ?thesis
    using v s z h by blast
qed



text \<open>
  The theorem at the value \<open>-5\<close> in slot 0 (address \<open>0x4FFB\<close>); slot 1 of \<open>-5\<close> shows what
  slot 1 of \<open>5\<close> shows.
\<close>

theorem decimal_value_sign_extends_12_bits_witness:
  "(0x4000 :: uint16) \<le> 0x4FFB \<and> (0x4FFB :: uint16) \<le> 0x7FFF
   \<and> signed_take_bit 11 (uint (0x4FFB :: uint16)) = - 5
   \<and> uint (decimal_value 0x4FFB) = 5 \<and> decimal_sign 0x4FFB = 0x08
   \<and> sevenseg_getOutputByte 0x4FFB = Some (digits ! 5 XOR 0x08)
   \<and> sevenseg_getOutputByte 0x5FFB = sevenseg_getOutputByte 0x5005"
proof -
  have h: "(0x4000 :: uint16) \<le> 0x4FFB" "(0x4FFB :: uint16) \<le> 0x7FFF"
    by simp_all
  have e: "signed_take_bit 11 (uint (0x4FFB :: uint16)) = - 5"
    by simp
  have d: "drop_bit 12 (0x4FFB :: uint16) AND 3 = 0"
    by simp
  have hi: "sevenseg_getOutputByte 0x5FFB = sevenseg_getOutputByte 0x5005"
    by code_simp
  show ?thesis
    using decimal_value_sign_extends_12_bits [OF h] h e d hi by simp
qed

text \<open>
  Claim C4. In decimal mode the magnitude \<open>v\<close> is the absolute value of the address's low
  12 bits read as a signed number, which is what the code's \<open>value\<close> holds after the
  negation, and the sign mark \<open>0x08\<close> is set exactly when that number is negative. Slot \<open>k\<close>
  in \<open>{1, 2, 3}\<close> is blank (\<open>0xFF\<close>) when \<open>v < 10 ^ k\<close> and \<open>digits[(v / 10 ^ k) % 10]\<close>
  otherwise, without sign mark; slot 0 is \<open>digits[v % 10]\<close> carrying the sign mark, and for
  the number 0 it is the pattern of digit 0, which is not the blank pattern.
\<close>

theorem decimal_leading_zero_suppression:
  assumes "0x4000 \<le> a" "a \<le> 0x7FFF"
  shows "let s = signed_take_bit 11 (uint a);
             v = nat \<bar>s\<bar>;
             sign = (if s < 0 then 0x08 else 0);
             slot = drop_bit 12 a AND 3
         in unat (decimal_value a) = v \<and> decimal_sign a = sign
          \<and> (slot = 0 \<longrightarrow> sevenseg_getOutputByte a = Some (digits ! (v mod 10) XOR sign))
          \<and> (\<forall>k \<in> {1, 2, 3}. unat slot = k \<longrightarrow>
                sevenseg_getOutputByte a =
                  (if v < 10 ^ k then Some 0xFF else Some (digits ! ((v div 10 ^ k) mod 10))))
          \<and> (slot = 0 \<and> s = 0 \<longrightarrow>
                sevenseg_getOutputByte a = Some (digits ! 0) \<and> digits ! 0 \<noteq> (0xFF :: uchar))"
proof -
  define s where "s = signed_take_bit 11 (uint a)"
  define v where "v = nat \<bar>s\<bar>"
  define sign :: uchar where "sign = (if s < 0 then 0x08 else 0)"
  have m: "unat (decimal_value a) = v"
    unfolding v_def s_def by (rule decimal_magnitude)
  have g: "decimal_sign a = sign"
    unfolding sign_def s_def by (rule decimal_sign_pattern)
  have s0: "drop_bit 12 a AND 3 = 0 \<longrightarrow>
              sevenseg_getOutputByte a = Some (digits ! (v mod 10) XOR sign)"
    using decimal_slot0 [OF assms] by (simp only: m g) blast
  have ks: "\<forall>k \<in> {1, 2, 3}. unat (drop_bit 12 a AND 3) = k \<longrightarrow>
              sevenseg_getOutputByte a =
                (if v < 10 ^ k then Some 0xFF else Some (digits ! ((v div 10 ^ k) mod 10)))"
    using decimal_slot_high [OF assms] by (simp only: m) blast
  have z: "drop_bit 12 a AND 3 = 0 \<and> s = 0 \<longrightarrow>
              sevenseg_getOutputByte a = Some (digits ! 0) \<and> digits ! 0 \<noteq> (0xFF :: uchar)"
  proof (intro impI conjI)
    assume h: "drop_bit 12 a AND 3 = 0 \<and> s = 0"
    then have "v = 0" "sign = 0"
      by (simp_all add: v_def sign_def)
    then show "sevenseg_getOutputByte a = Some (digits ! 0)"
      using s0 h by simp
    show "digits ! 0 \<noteq> (0xFF :: uchar)"
      by (simp add: digits_def)
  qed
  have "unat (decimal_value a) = v \<and> decimal_sign a = sign
          \<and> (drop_bit 12 a AND 3 = 0 \<longrightarrow>
               sevenseg_getOutputByte a = Some (digits ! (v mod 10) XOR sign))
          \<and> (\<forall>k \<in> {1, 2, 3}. unat (drop_bit 12 a AND 3) = k \<longrightarrow>
                sevenseg_getOutputByte a =
                  (if v < 10 ^ k then Some 0xFF else Some (digits ! ((v div 10 ^ k) mod 10))))
          \<and> (drop_bit 12 a AND 3 = 0 \<and> s = 0 \<longrightarrow>
                sevenseg_getOutputByte a = Some (digits ! 0) \<and> digits ! 0 \<noteq> (0xFF :: uchar))"
    by (intro conjI) (fact m g s0 ks z)+
  then show ?thesis
    unfolding Let_def v_def sign_def s_def .
qed

text \<open>
  The theorem at three negative numbers: \<open>-1234\<close> in slot 2 (address \<open>0x6B2E\<close>) shows
  \<open>digits[2]\<close>; \<open>-5\<close> in slot 0 (address \<open>0x4FFB\<close>) shows \<open>digits[5]\<close> with the sign mark,
  \<open>0x11\<close>; \<open>-5\<close> in slot 1 (address \<open>0x5FFB\<close>) is blank.
\<close>

theorem decimal_leading_zero_suppression_witness:
  "(0x4000 :: uint16) \<le> 0x6B2E \<and> (0x6B2E :: uint16) \<le> 0x7FFF
   \<and> signed_take_bit 11 (uint (0x6B2E :: uint16)) = - 1234
   \<and> unat (drop_bit 12 (0x6B2E :: uint16) AND 3) = 2 \<and> (2 :: nat) \<in> {1, 2, 3}
   \<and> unat (decimal_value 0x6B2E) = 1234 \<and> decimal_sign 0x6B2E = 0x08
   \<and> sevenseg_getOutputByte 0x6B2E = Some (digits ! 2) \<and> digits ! 2 = (0x4C :: uchar)
   \<and> (0x4000 :: uint16) \<le> 0x4FFB \<and> (0x4FFB :: uint16) \<le> 0x7FFF
   \<and> signed_take_bit 11 (uint (0x4FFB :: uint16)) = - 5
   \<and> drop_bit 12 (0x4FFB :: uint16) AND 3 = 0
   \<and> sevenseg_getOutputByte 0x4FFB = Some 0x11
   \<and> (0x4000 :: uint16) \<le> 0x5FFB \<and> (0x5FFB :: uint16) \<le> 0x7FFF
   \<and> signed_take_bit 11 (uint (0x5FFB :: uint16)) = - 5
   \<and> unat (drop_bit 12 (0x5FFB :: uint16) AND 3) = 1 \<and> (1 :: nat) \<in> {1, 2, 3}
   \<and> sevenseg_getOutputByte 0x5FFB = Some 0xFF"
proof -
  have h1: "(0x4000 :: uint16) \<le> 0x6B2E" "(0x6B2E :: uint16) \<le> 0x7FFF"
    and h2: "(0x4000 :: uint16) \<le> 0x4FFB" "(0x4FFB :: uint16) \<le> 0x7FFF"
    and h3: "(0x4000 :: uint16) \<le> 0x5FFB" "(0x5FFB :: uint16) \<le> 0x7FFF"
    by simp_all
  have e1: "signed_take_bit 11 (uint (0x6B2E :: uint16)) = - 1234"
    and e2: "signed_take_bit 11 (uint (0x4FFB :: uint16)) = - 5"
    and e3: "signed_take_bit 11 (uint (0x5FFB :: uint16)) = - 5"
    by simp_all
  have d1: "unat (drop_bit 12 (0x6B2E :: uint16) AND 3) = 2"
    and d2: "drop_bit 12 (0x4FFB :: uint16) AND 3 = 0"
    and d3: "unat (drop_bit 12 (0x5FFB :: uint16) AND 3) = 1"
    by simp_all
  have t: "digits ! 2 = (0x4C :: uchar)" "digits ! 5 XOR 0x08 = (0x11 :: uchar)"
    by (simp_all add: digits_def)
  have r1: "unat (decimal_value 0x6B2E) = 1234 \<and> decimal_sign 0x6B2E = 0x08
            \<and> sevenseg_getOutputByte 0x6B2E = Some (digits ! 2)"
    using decimal_leading_zero_suppression [OF h1] e1 d1 by (simp add: Let_def)
  have r2: "sevenseg_getOutputByte 0x4FFB = Some 0x11"
    using decimal_leading_zero_suppression [OF h2] e2 d2 t by (simp add: Let_def)
  have r3: "sevenseg_getOutputByte 0x5FFB = Some 0xFF"
    using decimal_leading_zero_suppression [OF h3] e3 d3 by (simp add: Let_def)
  show ?thesis
    using h1 h2 h3 e1 e2 e3 d1 d2 d3 t r1 r2 r3 by simp
qed

text \<open>
  Claim C3 as first stated (15 bits, sign at bit 14) fails at address \<open>0x4005\<close>, slot 0: the
  code's value is 5 and the byte is \<open>digits[5]\<close>, where the 15-bit reading gives the value
  \<open>-16379\<close> and the byte \<open>digits[9] XOR 0x08\<close>.
\<close>

theorem decimal_value_15_bit_counterexample:
  "uint (decimal_value 0x4005) = 5 \<and> spec_decimal_value 0x4005 = 16379
   \<and> drop_bit 12 (0x4005 :: uint16) AND 3 = 0
   \<and> sevenseg_getOutputByte 0x4005 = Some 0x19 \<and> spec_slot0 0x4005 = 0x01
   \<and> uint (decimal_value 0x4005) \<noteq> spec_decimal_value 0x4005
   \<and> sevenseg_getOutputByte 0x4005 \<noteq> Some (spec_slot0 0x4005)"
  by (simp add: decimal_value_def is_negative_def shifted_value_def spec_decimal_value_def
      spec_signed15_def spec_slot0_def spec_decimal_sign_def sevenseg_getOutputByte_def
      decimal_sign_def digits_at_def digits_def)

section \<open>Facts about the control-store encoder\<close>

lemma isa_length: "length (isa mro pci) = 64"
  by (simp add: isa_def)

lemma isa_rows_shape:
  "list_all (\<lambda>row. take 2 row = [U_FE0, U_FE1] \<and> 3 \<le> length row \<and> length row \<le> 8) (isa mro pci)"
  by (simp add: isa_def)

lemma isa_end_a: "list_all (\<lambda>row. last row = U_END) (take 47 (isa mro pci))"
  by (simp add: isa_def)

lemma isa_end_b: "list_all (\<lambda>row. last row = U_END) (take 7 (drop 48 (isa mro pci)))"
  by (simp add: isa_def)

lemma isa_end_c: "list_all (\<lambda>row. last row = U_END) (take 4 (drop 56 (isa mro pci)))"
  by (simp add: isa_def)

lemma isa_end_hlt: "list_all (\<lambda>row. row = [U_FE0, U_FE1, U_HLT]) (drop 60 (isa mro pci))"
  by (simp add: isa_def)

lemma isa_jmsa: "isa mro pci ! 47 = [U_FE0, U_FE1, U_AC0, U_AC1, U_MEO OR U_MRI, U_PCO OR U_MEI, mro OR pci, U_PCE]"
  by (simp add: isa_def)

lemma isa_swpa: "isa mro pci ! 55 = [U_FE0, U_FE1, U_AC0, U_AC1, U_MEO OR U_BRI, U_ARO OR U_MEI, U_ZEO OR U_ARI, U_SUO OR U_ARI]"
  by (simp add: isa_def)

lemma no_end: "U_PCE AND U_END = 0" "(U_SUO OR U_ARI) AND U_END = 0" "U_HLT AND U_END = 0" "U_END AND U_END = U_END" "U_END \<noteq> 0"
  by (simp_all add: signal_defs)

lemma isa_row_end:
  assumes "op < 64"
  shows "if 60 \<le> op then last (isa mro pci ! op) = U_HLT
         else if op = 47 \<or> op = 55 then length (isa mro pci ! op) = 8 \<and> last (isa mro pci ! op) AND U_END = 0
         else last (isa mro pci ! op) = U_END"
proof -
  consider "op < 47" | "op = 47" | "48 \<le> op \<and> op < 55" | "op = 55" | "56 \<le> op \<and> op < 60" | "60 \<le> op"
    by linarith
  then show ?thesis
  proof cases
    case 1
    then have "last (take 47 (isa mro pci) ! op) = U_END"
      using isa_end_a [of mro pci] by (simp add: list_all_length isa_length)
    with 1 show ?thesis by simp
  next
    case 2
    then show ?thesis by (simp add: isa_jmsa no_end)
  next
    case 3
    have "\<forall>n<7. last (isa mro pci ! (48 + n)) = U_END"
      using isa_end_b [of mro pci] by (simp add: list_all_length isa_length)
    moreover have "op - 48 < 7"
      using 3 by linarith
    ultimately have "last (isa mro pci ! (48 + (op - 48))) = U_END"
      by blast
    with 3 show ?thesis by simp
  next
    case 4
    then show ?thesis by (simp add: isa_swpa no_end)
  next
    case 5
    have "\<forall>n<4. last (isa mro pci ! (56 + n)) = U_END"
      using isa_end_c [of mro pci] by (simp add: list_all_length isa_length)
    moreover have "op - 56 < 4"
      using 5 by linarith
    ultimately have "last (isa mro pci ! (56 + (op - 56))) = U_END"
      by blast
    with 5 show ?thesis by simp
  next
    case 6
    have "\<forall>n<4. isa mro pci ! (60 + n) = [U_FE0, U_FE1, U_HLT]"
      using isa_end_hlt [of mro pci] by (simp add: list_all_length isa_length)
    moreover have "op - 60 < 4"
      using 6 assms by linarith
    ultimately have "isa mro pci ! (60 + (op - 60)) = [U_FE0, U_FE1, U_HLT]"
      by blast
    with 6 show ?thesis by simp
  qed
qed

lemma isa_row_shape:
  assumes "op < 64"
  shows "take 2 (isa mro pci ! op) = [U_FE0, U_FE1] \<and> 3 \<le> length (isa mro pci ! op) \<and> length (isa mro pci ! op) \<le> 8"
  using isa_rows_shape [of mro pci] assms by (simp add: list_all_length isa_length)


lemma mask63: "(x :: uint16) AND 0x3F = take_bit 6 x"
  by (simp add: take_bit_eq_mask mask_eq_exp_minus_1)

lemma mask7: "(x :: uint16) AND 7 = take_bit 3 x"
  by (simp add: take_bit_eq_mask mask_eq_exp_minus_1)

lemma unat_and63: "unat ((x :: uint16) AND 0x3F) = unat x mod 64"
  by (simp add: mask63 unsigned_take_bit_eq take_bit_eq_mod unat_mod)

lemma unat_and7: "unat ((x :: uint16) AND 7) = unat x mod 8"
  by (simp add: mask7 unsigned_take_bit_eq take_bit_eq_mod unat_mod)

lemma unat_bank: "unat (drop_bit 9 (a :: uint16)) = unat a div 512"
  by (simp add: unat_drop_bit_eq drop_bit_eq_div unat_div)

lemma unat_cycle: "unat (drop_bit 6 (a :: uint16) AND 7) = (unat a div 64) mod 8"
  by (simp add: unat_and7 unat_drop_bit_eq drop_bit_eq_div unat_div)

lemma unat_shift_amount:
  assumes "unat (b :: uint16) < 8192"
  shows "unat (push_bit 3 b) = 8 * unat b"
proof -
  have "unat (push_bit 3 b) = (unat b * 8) mod 65536"
    by (simp add: push_bit_eq_mult unat_word_ariths)
  then show ?thesis using assms by simp
qed


lemma ucode_body:
  assumes "a < 2048"
  shows "ucode_getOutputByte mro pci a =
           Some (ucast (drop_bit (unat (drop_bit 9 a) * 8)
                   (controlWord mro pci (unat (a AND 0x3F)) (unat (drop_bit 6 a AND 7)))))"
proof -
  have u: "unat a < 2048" using assms by (simp add: word_less_nat_alt)
  have g: "\<not> a > 2048" using u by (simp add: word_less_nat_alt)
  have i: "unat (a AND 0x3F) < 64" by (simp add: unat_and63)
  have c: "unat (drop_bit 6 a AND 7) < 8" by (simp add: unat_cycle)
  have b: "unat (drop_bit 9 a) < 4" using u by (simp add: unat_bank)
  then have s: "unat (push_bit 3 (drop_bit 9 a)) = 8 * unat (drop_bit 9 a)"
    by (intro unat_shift_amount) simp
  have s32: "unat (push_bit 3 (drop_bit 9 a)) < 32" using b s by simp
  show ?thesis
    using g i c s32
    by (simp add: ucode_getOutputByte_def Let_def isa_at_def shr_ulong_def s mult.commute)
qed








text \<open>
  Claim C5, as amended. The table has 64 rows; every row begins with \<open>U_FE0\<close> (PC out, MAR in)
  and \<open>U_FE1\<close> (RAM out, IR in, PC increment) and defines between 3 and 8 entries. The last
  defined entry is \<open>U_END\<close>, except in the four HLT rows (60 to 63), which end with \<open>U_HLT\<close>,
  and in the rows 47 (JMSa) and 55 (SWPa), which fill all eight cycles and whose eighth entry
  does not contain \<open>U_END\<close>.
\<close>

theorem isa_sequences_shape:
  "length (isa mro pci) = 64
   \<and> (\<forall>op<64.
         take 2 (isa mro pci ! op) = [U_FE0, U_FE1]
         \<and> 3 \<le> length (isa mro pci ! op) \<and> length (isa mro pci ! op) \<le> 8
         \<and> (if 60 \<le> op then last (isa mro pci ! op) = U_HLT
             else if op = 47 \<or> op = 55
               then length (isa mro pci ! op) = 8 \<and> last (isa mro pci ! op) AND U_END = 0
             else last (isa mro pci ! op) = U_END))
   \<and> U_FE0 = U_PHO OR U_PLO OR U_MRI \<and> U_FE1 = U_MEO OR U_IRI OR U_PCE
   \<and> U_HLT AND U_END = 0 \<and> U_END \<noteq> 0"
proof -
  have l: "length (isa mro pci) = 64"
    by (rule isa_length)
  have rows: "\<forall>op<64.
         take 2 (isa mro pci ! op) = [U_FE0, U_FE1]
         \<and> 3 \<le> length (isa mro pci ! op) \<and> length (isa mro pci ! op) \<le> 8
         \<and> (if 60 \<le> op then last (isa mro pci ! op) = U_HLT
             else if op = 47 \<or> op = 55
               then length (isa mro pci ! op) = 8 \<and> last (isa mro pci ! op) AND U_END = 0
             else last (isa mro pci ! op) = U_END)"
    using isa_row_shape [of _ mro pci] isa_row_end [of _ mro pci] by simp
  have fe0: "U_FE0 = U_PHO OR U_PLO OR U_MRI"
    by (simp add: U_FE0_def U_PCO_def ac_simps)
  have fe1: "U_FE1 = U_MEO OR U_IRI OR U_PCE"
    by (simp add: U_FE1_def)
  have h: "U_HLT AND U_END = 0" and e: "U_END \<noteq> 0"
    by (simp_all add: no_end)
  show ?thesis
    by (intro conjI) (fact l rows fe0 fe1 h e)+
qed

text \<open>The theorem at the rows 47 and 0, the two missing macros taken as 0.\<close>

theorem isa_sequences_shape_witness:
  "(47 :: nat) < 64 \<and> take 2 (isa 0 0 ! 47) = [U_FE0, U_FE1] \<and> length (isa 0 0 ! 47) = 8
   \<and> last (isa 0 0 ! 47) AND U_END = 0
   \<and> (0 :: nat) < 64 \<and> last (isa 0 0 ! 0) = U_END"
  using isa_sequences_shape [of 0 0, THEN conjunct2, THEN conjunct1, THEN spec [of _ "47 :: nat"]]
    isa_sequences_shape [of 0 0, THEN conjunct2, THEN conjunct1, THEN spec [of _ "0 :: nat"]]
  by simp

text \<open>
  Claim C5 as first stated fails at row 60 (HLTc), which uses neither missing macro: its
  last defined entry is \<open>U_HLT\<close>, without \<open>U_END\<close>.
\<close>

theorem isa_sequence_end_counterexample:
  "(60 :: nat) < 64 \<and> isa 0 0 ! 60 = [U_FE0, U_FE1, U_HLT]
   \<and> last (isa 0 0 ! 60) AND U_END \<noteq> U_END"
  by (simp add: isa_def signal_defs)

section \<open>Facts about the board and the shared code\<close>

lemmas pin_defs = SHIFT_DATA_def SHIFT_CLOCK_def EEPROM_WE_def EEPROM_OE_def EEPROM_DATA_0_def

lemma bit_pins_byte:
  "bit (horner_sum of_bool 2 (map rd [lo..<lo + 8]) :: uchar) k \<longleftrightarrow> k < 8 \<and> rd (lo + k)"
  by (auto simp: bit_horner_sum_bit_word_iff)

lemma sevenseg_read_step:
  "bit (ucast ((ucast (data :: uchar) :: uint16) OR push_bit k (if b then 1 else 0)) :: uchar) j
     \<longleftrightarrow> bit data j \<or> (j = k \<and> j < 8 \<and> b)"
  by (auto simp: bit_simps dest: bit_imp_le_length)

lemma bit_times2:
  "bit ((x :: uint16) * 2) j \<longleftrightarrow> 0 < j \<and> j < 16 \<and> bit x (j - 1)"
proof -
  have "x * 2 = push_bit 1 x"
    by (simp add: push_bit_eq_mult)
  then have "bit (x * 2) j \<longleftrightarrow> bit (push_bit 1 x) j"
    by (simp only:)
  also have "\<dots> \<longleftrightarrow> 0 < j \<and> j < 16 \<and> bit x (j - 1)"
    unfolding bit_push_bit_iff by (auto simp: possible_bit_word)
  finally show ?thesis .
qed

lemma ucode_read_step:
  "bit (ucast (push_bit 1 (ucast (data :: uchar) :: uint16) OR of_bool b) :: uchar) j
     \<longleftrightarrow> j < 8 \<and> (if j = 0 then b else bit data (j - 1))"
  by (auto simp: bit_simps bit_times2 dest: bit_imp_le_length)

lemma sevenseg_read_fold:
  "bit (fold (\<lambda>k data. ucast ((ucast data :: uint16)
                         OR push_bit k (if rd (lo + k) = HIGH then 1 else 0)))
       [0..<n] (d :: uchar)) j \<longleftrightarrow> bit d j \<or> (j < n \<and> j < 8 \<and> rd (lo + j))"
proof (induction n)
  case 0
  then show ?case by simp
next
  case (Suc n)
  show ?case
    by (simp only: upt_Suc_append [OF le0] fold_append fold_simps o_apply sevenseg_read_step Suc.IH)
       (auto simp: less_Suc_eq)
qed

lemma ucode_read_fold:
  "bit (fold (\<lambda>k data. ucast (push_bit 1 (ucast data :: uint16) OR of_bool (rd k)))
       (rev [lo..<lo + n]) (d :: uchar)) j
     \<longleftrightarrow> j < 8 \<and> (if j < n then rd (lo + j) else bit d (j - n))"
proof (induction n arbitrary: d j)
  case 0
  then show ?case by (auto dest: bit_imp_le_length)
next
  case (Suc n)
  have "[lo..<lo + Suc n] = [lo..<lo + n] @ [lo + n]"
    by simp
  then have "rev [lo..<lo + Suc n] = (lo + n) # rev [lo..<lo + n]"
    by simp
  then show ?case
    by (simp only: fold_simps Suc.IH ucode_read_step) (auto simp: less_Suc_eq Suc_diff_le)
qed

lemma bit_sevenseg_readByte:
  "bit (sevenseg_readByte rd) j \<longleftrightarrow> j < 8 \<and> rd (EEPROM_DATA_0 + j)"
proof -
  have "bit (sevenseg_readByte rd) j
          \<longleftrightarrow> bit (0 :: uchar) j \<or> (j < 8 \<and> j < 8 \<and> rd (EEPROM_DATA_0 + j))"
    unfolding sevenseg_readByte_def by (rule sevenseg_read_fold)
  then show ?thesis by simp
qed

lemma bit_ucode_readByte:
  "bit (ucode_readByte rd) j \<longleftrightarrow> j < 8 \<and> rd (EEPROM_DATA_0 + j)"
proof -
  have "bit (ucode_readByte rd) j
          \<longleftrightarrow> j < 8 \<and> (if j < 8 then rd (EEPROM_DATA_0 + j) else bit (0 :: uchar) (j - 8))"
    unfolding ucode_readByte_def by (rule ucode_read_fold)
  then show ?thesis by auto
qed

lemma sevenseg_readByte_eq:
  "sevenseg_readByte rd = horner_sum of_bool 2 (map rd [EEPROM_DATA_0..<EEPROM_DATA_0 + 8])"
  by (rule bit_word_eqI) (simp add: bit_sevenseg_readByte bit_pins_byte)

lemma ucode_readByte_eq:
  "ucode_readByte rd = horner_sum of_bool 2 (map rd [EEPROM_DATA_0..<EEPROM_DATA_0 + 8])"
  by (rule bit_word_eqI) (simp add: bit_ucode_readByte bit_pins_byte)


lemma digitalWrite_plain:
  assumes "pin \<noteq> SHIFT_CLOCK" "pin \<noteq> EEPROM_WE"
  shows "digitalWrite pin v s = s\<lparr>pin_level := (pin_level s)(pin := v)\<rparr>"
  using assms by (simp add: digitalWrite_def)

lemma clock_in:
  assumes "\<not> pin_level s SHIFT_CLOCK"
  shows "digitalWrite SHIFT_CLOCK LOW (digitalWrite SHIFT_CLOCK HIGH (digitalWrite SHIFT_DATA b s))
           = s\<lparr>pin_level := (pin_level s)(SHIFT_DATA := b),
                addr_latch := push_bit 1 (addr_latch s) OR of_bool b\<rparr>"
proof -
  have "(pin_level s)(SHIFT_DATA := b, SHIFT_CLOCK := False) = (pin_level s)(SHIFT_DATA := b)"
    using assms by (auto simp: fun_eq_iff pin_defs)
  then show ?thesis
    using assms by (simp add: digitalWrite_def pin_defs)
qed

lemma shift_fold:
  assumes "\<not> pin_level s SHIFT_CLOCK"
  shows "fold (\<lambda>i s. digitalWrite SHIFT_CLOCK LOW
                   (digitalWrite SHIFT_CLOCK HIGH
                     (digitalWrite SHIFT_DATA (bits i) s))) js s
           = s\<lparr>pin_level := (pin_level s)(SHIFT_DATA := last (pin_level s SHIFT_DATA # map bits js)),
                addr_latch := fold (\<lambda>i l. push_bit 1 l OR of_bool (bits i)) js (addr_latch s)\<rparr>"
proof (induction js rule: rev_induct)
  case Nil
  show ?case by simp
next
  case (snoc j js)
  define d where "d = last (pin_level s SHIFT_DATA # map bits js)"
  define l where "l = fold (\<lambda>i l. push_bit 1 l OR of_bool (bits i)) js (addr_latch s)"
  define t where "t = s\<lparr>pin_level := (pin_level s)(SHIFT_DATA := d), addr_latch := l\<rparr>"
  have c: "\<not> pin_level t SHIFT_CLOCK"
    using assms by (simp add: t_def pin_defs)
  have "fold (\<lambda>i s. digitalWrite SHIFT_CLOCK LOW
                   (digitalWrite SHIFT_CLOCK HIGH
                     (digitalWrite SHIFT_DATA (bits i) s))) (js @ [j]) s
          = digitalWrite SHIFT_CLOCK LOW
                   (digitalWrite SHIFT_CLOCK HIGH
                     (digitalWrite SHIFT_DATA (bits j) t))"
    by (simp only: fold_append fold_simps o_apply snoc.IH t_def d_def l_def)
  also have "\<dots> = t\<lparr>pin_level := (pin_level t)(SHIFT_DATA := bits j),
                addr_latch := push_bit 1 (addr_latch t) OR of_bool (bits j)\<rparr>"
    by (rule clock_in [OF c])
  also have "\<dots> = s\<lparr>pin_level := (pin_level s)(SHIFT_DATA := bits j),
                addr_latch := push_bit 1 l OR of_bool (bits j)\<rparr>"
    by (simp add: t_def)
  also have "(pin_level s)(SHIFT_DATA := bits j)
               = (pin_level s)(SHIFT_DATA := last (pin_level s SHIFT_DATA # map bits (js @ [j])))"
    by simp
  also have "push_bit 1 l OR of_bool (bits j)
               = fold (\<lambda>i l. push_bit 1 l OR of_bool (bits i)) (js @ [j]) (addr_latch s)"
    by (simp only: fold_append fold_simps o_apply l_def)
  finally show ?case .
qed

lemma latch_fold:
  assumes "m \<le> 8"
  shows "fold (\<lambda>i l. push_bit 1 l OR of_bool (bit (val :: uchar) (7 - i))) [0..<m] (l :: uint16)
           = push_bit m l OR ucast (drop_bit (8 - m) val)"
  using assms
proof (induction m)
  case 0
  have "drop_bit 8 val = 0"
    by (rule bit_word_eqI) (auto simp: bit_simps dest: bit_imp_le_length)
  then show ?case by simp
next
  case (Suc m)
  then have m: "m < 8" by simp
  have e: "push_bit 1 (push_bit m l OR ucast (drop_bit (8 - m) val)) OR of_bool (bit val (7 - m))
            = push_bit (Suc m) l OR ucast (drop_bit (8 - Suc m) val)"
  proof (rule bit_word_eqI)
    fix j
    assume "j < LENGTH(16)"
    have "push_bit 1 (push_bit m l OR ucast (drop_bit (8 - m) val))
            = (push_bit m l OR ucast (drop_bit (8 - m) val)) * 2"
      by (simp add: push_bit_eq_mult)
    moreover have "j \<noteq> 0 \<Longrightarrow> 8 - m + (j - 1) = 7 - m + j"
      using m by simp
    ultimately show "bit (push_bit 1 (push_bit m l OR ucast (drop_bit (8 - m) val)) OR of_bool (bit val (7 - m))) j
        \<longleftrightarrow> bit (push_bit (Suc m) l OR ucast (drop_bit (8 - Suc m) val)) j"
      using m \<open>j < LENGTH(16)\<close>
      by (cases "j = 0") (auto simp: bit_simps bit_times2 simp del: push_bit_of_Suc_0)
  qed
  from Suc have "fold (\<lambda>i l. push_bit 1 l OR of_bool (bit val (7 - i))) [0..<m] l
           = push_bit m l OR ucast (drop_bit (8 - m) val)"
    by simp
  then show ?case
    by (simp only: upt_Suc_append [OF le0] fold_append fold_simps o_apply e)
qed

lemma latch_two_bytes:
  "push_bit 8 (push_bit 8 (l :: uint16) OR ucast (ucast (drop_bit 8 a) :: uchar))
     OR ucast (ucast (a :: uint16) :: uchar) = a"
  by (rule bit_word_eqI) (auto simp: bit_simps)


lemma latch_low_bytes:
  "push_bit 8 (ucast (ucast (drop_bit 8 a) :: uchar)) OR ucast (ucast (a :: uint16) :: uchar) = a"
  by (rule bit_word_eqI) (auto simp: bit_simps)

lemma shiftOut_latch:
  assumes "\<not> pin_level s SHIFT_CLOCK"
  shows "shiftOut SHIFT_DATA SHIFT_CLOCK val s
           = s\<lparr>pin_level := (pin_level s)(SHIFT_DATA := bit val 0),
                addr_latch := push_bit 8 (addr_latch s) OR ucast val\<rparr>"
proof -
  have l: "last (pin_level s SHIFT_DATA # map (\<lambda>i. bit val (7 - i)) [0..<8]) = bit val 0"
    by (simp add: last_map)
  have "shiftOut SHIFT_DATA SHIFT_CLOCK val s
          = s\<lparr>pin_level := (pin_level s)(SHIFT_DATA :=
                   last (pin_level s SHIFT_DATA # map (\<lambda>i. bit val (7 - i)) [0..<8])),
               addr_latch := fold (\<lambda>i l. push_bit 1 l OR of_bool (bit val (7 - i))) [0..<8]
                               (addr_latch s)\<rparr>"
    unfolding shiftOut_def by (rule shift_fold [OF assms])
  moreover have "fold (\<lambda>i l. push_bit 1 l OR of_bool (bit val (7 - i))) [0..<8] (addr_latch s)
          = push_bit 8 (addr_latch s) OR ucast val"
    using latch_fold [of 8 val "addr_latch s"] by simp
  ultimately show ?thesis
    by (simp only: l)
qed

lemma writeEepromAddress_latch:
  assumes "\<not> pin_level s SHIFT_CLOCK"
  shows "writeEepromAddress a SHIFT_DATA SHIFT_CLOCK s
           = s\<lparr>pin_level := (pin_level s)(SHIFT_DATA := bit a 0), addr_latch := a\<rparr>"
proof -
  define t where "t = shiftOut SHIFT_DATA SHIFT_CLOCK (ucast (drop_bit 8 a)) s"
  have t: "t = s\<lparr>pin_level := (pin_level s)(SHIFT_DATA := bit (ucast (drop_bit 8 a) :: uchar) 0),
                addr_latch := push_bit 8 (addr_latch s) OR ucast (ucast (drop_bit 8 a) :: uchar)\<rparr>"
    unfolding t_def by (rule shiftOut_latch [OF assms])
  have c: "\<not> pin_level t SHIFT_CLOCK"
    using assms by (simp add: t pin_defs)
  have b0: "bit (ucast a :: uchar) 0 = bit a 0"
    by (simp add: bit_simps)
  have "writeEepromAddress a SHIFT_DATA SHIFT_CLOCK s = shiftOut SHIFT_DATA SHIFT_CLOCK (ucast a) t"
    by (simp only: writeEepromAddress_def t_def)
  also have "\<dots> = t\<lparr>pin_level := (pin_level t)(SHIFT_DATA := bit (ucast a :: uchar) 0),
                addr_latch := push_bit 8 (addr_latch t) OR ucast (ucast a :: uchar)\<rparr>"
    by (rule shiftOut_latch [OF c])
  also have "\<dots> = s\<lparr>pin_level := (pin_level s)(SHIFT_DATA := bit a 0), addr_latch := a\<rparr>"
    by (simp add: t b0 latch_two_bytes latch_low_bytes)
  finally show ?thesis .
qed

lemma and1_bit0: "(d :: uchar) AND 1 \<noteq> 0 \<longleftrightarrow> bit d 0"
  by (simp add: and_one_eq bit_0 mod2_eq_if)

lemma data_pins_fold:
  assumes "SHIFT_CLOCK < lo" "EEPROM_WE < lo"
  shows "fold (\<lambda>i (d, s). (drop_bit 1 d, digitalWrite i (d AND 1 \<noteq> 0) s)) [lo..<lo + n]
           (d :: uchar, s)
           = (drop_bit n d,
              s\<lparr>pin_level := (\<lambda>p. if lo \<le> p \<and> p < lo + n then bit d (p - lo)
                                    else pin_level s p)\<rparr>)"
proof (induction n)
  case 0
  have e: "(\<lambda>p. if lo \<le> p \<and> p < lo + 0 then bit d (p - lo) else pin_level s p) = pin_level s"
    by (auto simp: fun_eq_iff)
  show ?case
    by (simp only: e) simp
next
  case (Suc n)
  define t where "t = s\<lparr>pin_level := (\<lambda>p. if lo \<le> p \<and> p < lo + n then bit d (p - lo)
                                    else pin_level s p)\<rparr>"
  have ne: "lo + n \<noteq> SHIFT_CLOCK" "lo + n \<noteq> EEPROM_WE"
    using assms by simp_all
  have u: "[lo..<lo + Suc n] = [lo..<lo + n] @ [lo + n]"
    by simp
  have f: "(pin_level t)(lo + n := bit d n)
             = (\<lambda>p. if lo \<le> p \<and> p < lo + Suc n then bit d (p - lo) else pin_level s p)"
    by (auto simp: fun_eq_iff t_def)
  have "fold (\<lambda>i (d, s). (drop_bit 1 d, digitalWrite i (d AND 1 \<noteq> 0) s)) [lo..<lo + Suc n] (d, s)
          = (drop_bit 1 (drop_bit n d), digitalWrite (lo + n) (drop_bit n d AND 1 \<noteq> 0) t)"
    by (simp only: u fold_append fold_simps o_apply Suc.IH t_def prod.case)
  also have "\<dots> = (drop_bit (Suc n) d, t\<lparr>pin_level := (pin_level t)(lo + n := bit d n)\<rparr>)"
    by (simp add: digitalWrite_plain [OF ne] and1_bit0 bit_simps)
  also have "\<dots> = (drop_bit (Suc n) d,
              s\<lparr>pin_level := (\<lambda>p. if lo \<le> p \<and> p < lo + Suc n then bit d (p - lo)
                                    else pin_level s p)\<rparr>)"
    by (simp only: f) (simp add: t_def)
  finally show ?case .
qed

lemma byte_of_bits: "horner_sum of_bool 2 (map (bit (d :: uchar)) [0..<8]) = d"
  by (rule bit_word_eqI) (auto simp: bit_horner_sum_bit_word_iff)

lemma writeEepromByte_cycle:
  assumes "pin_level s EEPROM_WE"
  shows "writeEepromByte d EEPROM_DATA_0 EEPROM_WE s
           = s\<lparr>pin_level := (\<lambda>p. if EEPROM_DATA_0 \<le> p \<and> p < EEPROM_DATA_0 + 8
                                    then bit d (p - EEPROM_DATA_0) else pin_level s p),
                eeprom := (eeprom s)(addr_latch s := d),
                writes := writes s @ [(addr_latch s, d)]\<rparr>"
proof -
  define t where "t = s\<lparr>pin_level := (\<lambda>p. if EEPROM_DATA_0 \<le> p \<and> p < EEPROM_DATA_0 + 8
                                    then bit d (p - EEPROM_DATA_0) else pin_level s p)\<rparr>"
  have lo: "SHIFT_CLOCK < EEPROM_DATA_0" "EEPROM_WE < EEPROM_DATA_0"
    by (simp_all add: pin_defs)
  have w: "writeEepromByte d EEPROM_DATA_0 EEPROM_WE s
             = digitalWrite EEPROM_WE HIGH (digitalWrite EEPROM_WE LOW t)"
    by (simp only: writeEepromByte_def data_pins_fold [OF lo] Let_def prod.case t_def)
  have bus: "data_bus t = d"
  proof -
    have "map (\<lambda>k. pin_level t (EEPROM_DATA_0 + k)) [0..<8] = map (bit d) [0..<8]"
      by (simp add: t_def)
    then show ?thesis
      by (simp only: data_bus_def byte_of_bits)
  qed
  have we: "pin_level t EEPROM_WE"
    using assms by (simp add: t_def pin_defs)
  have idem: "(pin_level t)(EEPROM_WE := True) = pin_level t"
    using we by (auto simp: fun_eq_iff)
  have "digitalWrite EEPROM_WE HIGH (digitalWrite EEPROM_WE LOW t)
          = t\<lparr>eeprom := (eeprom t)(addr_latch t := d),
              writes := writes t @ [(addr_latch t, d)]\<rparr>"
    using we by (simp add: digitalWrite_def bus pin_defs idem [unfolded pin_defs])
  then show ?thesis
    by (simp add: w t_def)
qed

lemma pin_level_digitalWrite:
  "pin_level (digitalWrite pin v s) p = (if p = pin then v else pin_level s p)"
  by (simp add: digitalWrite_def Let_def)

lemma pin_output_digitalWrite: "pin_output (digitalWrite pin v s) = pin_output s"
  by (simp add: digitalWrite_def Let_def)

lemma writeEepromByte_unfold:
  "writeEepromByte d EEPROM_DATA_0 EEPROM_WE s
     = digitalWrite EEPROM_WE HIGH (digitalWrite EEPROM_WE LOW
         (s\<lparr>pin_level := (\<lambda>p. if EEPROM_DATA_0 \<le> p \<and> p < EEPROM_DATA_0 + 8
                                    then bit d (p - EEPROM_DATA_0) else pin_level s p)\<rparr>))"
proof -
  have lo: "SHIFT_CLOCK < EEPROM_DATA_0" "EEPROM_WE < EEPROM_DATA_0"
    by (simp_all add: pin_defs)
  show ?thesis
    by (simp only: writeEepromByte_def data_pins_fold [OF lo] Let_def prod.case)
qed

lemma data_pins_after_write:
  assumes "k < 8"
  shows "pin_level (writeEepromByte b EEPROM_DATA_0 EEPROM_WE s) (EEPROM_DATA_0 + k) = bit b k"
proof -
  have ne: "EEPROM_DATA_0 + k \<noteq> EEPROM_WE"
    by (simp add: pin_defs)
  show ?thesis
    using assms ne by (simp add: writeEepromByte_unfold pin_level_digitalWrite)
qed

lemma pin_output_writeEepromByte:
  "pin_output (writeEepromByte b EEPROM_DATA_0 EEPROM_WE s) = pin_output s"
  by (simp add: writeEepromByte_unfold pin_output_digitalWrite)

lemma read_pins_after_write:
  "horner_sum of_bool 2
     (map (pin_level (writeEepromByte b EEPROM_DATA_0 EEPROM_WE s))
        [EEPROM_DATA_0..<EEPROM_DATA_0 + 8]) = b"
  by (rule bit_word_eqI) (simp add: bit_pins_byte data_pins_after_write)

section \<open>Runs of write cycles\<close>

lemma store_append: "store (ws @ ws') m = store ws' (store ws m)"
  by (simp add: store_def)

lemma store_single: "store [(a, d)] m = m(a := d)"
  by (simp add: store_def)

lemma steps_to_refl: "idle s \<Longrightarrow> steps_to s [] [] s"
  by (simp add: steps_to_def store_def)

lemma steps_to_trans:
  assumes "steps_to s ws out s1" "steps_to s1 ws' out' s2"
  shows "steps_to s (ws @ ws') (out @ out') s2"
  using assms by (simp add: steps_to_def store_append)

lemma steps_to_Serial_write:
  assumes "steps_to s ws out s'"
  shows "steps_to s ws (out @ [c]) (Serial_write c s')"
  using assms by (simp add: steps_to_def idle_def Serial_write_def)

lemma steps_to_Serial_write_str:
  assumes "steps_to s ws out s'"
  shows "steps_to s ws (out @ str) (Serial_write_str str s')"
  using assms by (simp add: steps_to_def idle_def Serial_write_str_def)

lemma for_each_steps:
  assumes "\<And>x t. x \<in> set xs \<Longrightarrow> idle t \<Longrightarrow> \<exists>t'. f x t = Some t' \<and> steps_to t (W x) (C x) t'"
    and "idle s"
  shows "\<exists>s'. for_each xs f s = Some s'
              \<and> steps_to s (concat (map W xs)) (concat (map C xs)) s'"
  using assms
proof (induction xs arbitrary: s)
  case Nil
  then show ?case by (simp add: steps_to_refl)
next
  case (Cons x xs)
  from Cons.prems(1) [of x s] Cons.prems(2)
  obtain t where t: "f x s = Some t" "steps_to s (W x) (C x) t"
    by auto
  then have "idle t"
    by (simp add: steps_to_def)
  with Cons.IH [of t] Cons.prems(1)
  obtain s' where s': "for_each xs f t = Some s'"
      "steps_to t (concat (map W xs)) (concat (map C xs)) s'"
    by auto
  from steps_to_trans [OF t(2) s'(2)] t(1) s'(1) show ?case
    by simp
qed

lemma fold_steps:
  assumes "\<And>x t. x \<in> set xs \<Longrightarrow> idle t \<Longrightarrow> steps_to t (W x) (C x) (f x t)"
    and "idle s"
  shows "steps_to s (concat (map W xs)) (concat (map C xs)) (fold f xs s)"
  using assms
proof (induction xs arbitrary: s)
  case Nil
  then show ?case by (simp add: steps_to_refl)
next
  case (Cons x xs)
  have t: "steps_to s (W x) (C x) (f x s)"
    using Cons.prems by simp
  then have "idle (f x s)"
    by (simp add: steps_to_def)
  with Cons.IH [of "f x s"] Cons.prems(1)
  have "steps_to (f x s) (concat (map W xs)) (concat (map C xs)) (fold f xs (f x s))"
    by simp
  from steps_to_trans [OF t this] show ?case
    by simp
qed

lemma write_cycle:
  assumes "idle s"
  shows "steps_to s [(a, d)] []
           (writeEepromByte d EEPROM_DATA_0 EEPROM_WE
             (writeEepromAddress a SHIFT_DATA SHIFT_CLOCK s))"
proof -
  define t where "t = writeEepromAddress a SHIFT_DATA SHIFT_CLOCK s"
  have c: "\<not> pin_level s SHIFT_CLOCK" and w: "pin_level s EEPROM_WE"
    using assms by (simp_all add: idle_def)
  have t: "t = s\<lparr>pin_level := (pin_level s)(SHIFT_DATA := bit a 0), addr_latch := a\<rparr>"
    unfolding t_def by (rule writeEepromAddress_latch [OF c])
  have wt: "pin_level t EEPROM_WE"
    using w by (simp add: t pin_defs)
  show ?thesis
    unfolding t_def [symmetric] writeEepromByte_cycle [OF wt]
    using c w by (simp add: steps_to_def idle_def store_single t pin_defs)
qed


lemma small_nat_no_high_bit:
  assumes "j < 2 ^ n" "n \<le> m"
  shows "\<not> bit (j :: nat) m"
proof -
  have "(2 :: nat) ^ n \<le> 2 ^ m"
    using assms(2) by simp
  then have "j < 2 ^ m"
    using assms(1) by linarith
  then have "j div 2 ^ m = 0"
    by simp
  then show ?thesis
    by (simp add: bit_iff_odd)
qed

lemma page_address:
  assumes "j < 2 ^ n"
  shows "push_bit n (of_nat i) OR of_nat j = (of_nat (i * 2 ^ n + j) :: uint16)"
proof -
  have d: "\<not> bit (push_bit n (of_nat i :: uint16)) m \<or> \<not> bit (of_nat j :: uint16) m" for m
    using small_nat_no_high_bit [OF assms, of m] by (auto simp: bit_simps)
  have "push_bit n (of_nat i) OR of_nat j = push_bit n (of_nat i) + (of_nat j :: uint16)"
    by (rule disjunctive_add [symmetric]) (rule d)
  then show ?thesis
    by (simp add: push_bit_eq_mult)
qed

lemma unat_of_nat16: "a < 65536 \<Longrightarrow> unat (of_nat a :: uint16) = a"
  by (simp add: unat_of_nat)

lemma of_nat16_inj:
  assumes "a < 65536" "b < 65536" "(of_nat a :: uint16) = of_nat b"
  shows "a = b"
  using assms unat_of_nat16 by metis

lemma ucode_byte_defined:
  assumes "a < 2048"
  shows "\<exists>b. ucode_getOutputByte mro pci (of_nat a) = Some b"
proof -
  have "unat (of_nat a :: uint16) = a"
    using assms by (simp add: unat_of_nat16)
  then have "(of_nat a :: uint16) < 2048"
    using assms by (simp add: word_less_nat_alt)
  from ucode_body [OF this] show ?thesis
    by simp
qed

lemma sevenseg_byte_defined:
  "\<exists>b. sevenseg_getOutputByte a = Some b"
proof -
  consider "a > 0x7FFF" | "a < 0x4000" | "0x4000 \<le> a \<and> a \<le> 0x7FFF"
    unfolding word_less_nat_alt word_le_nat_alt by linarith
  then show ?thesis
  proof cases
    case 1
    then show ?thesis by (simp add: sevenseg_getOutputByte_def)
  next
    case 2
    then show ?thesis by (simp add: octal_mode_body)
  next
    case 3
    then show ?thesis
      by (simp add: decimal_mode_body Let_def)
  qed
qed

lemma ucode_program_step:
  assumes "i < 4" "j < 512" "idle s"
  shows "\<exists>s'. ucode_program mro pci i j s = Some s'
             \<and> steps_to s [(of_nat (i * 512 + j),
                             the (ucode_getOutputByte mro pci (of_nat (i * 512 + j))))] [] s'"
proof -
  have a: "push_bit 9 (of_nat i) OR of_nat j = (of_nat (i * 512 + j) :: uint16)"
    using page_address [of j 9 i] assms(2) by simp
  have "i * 512 + j < 2048"
    using assms(1,2) by linarith
  from ucode_byte_defined [OF this, of mro pci]
  obtain b where b: "ucode_getOutputByte mro pci (of_nat (i * 512 + j)) = Some b"
    by auto
  show ?thesis
    unfolding ucode_program_def a Let_def delay_def b
    using write_cycle [OF assms(3), of "of_nat (i * 512 + j)" b] by simp
qed

lemma sevenseg_program_step:
  assumes "j < 4096" "idle s"
  shows "\<exists>s'. sevenseg_program i j s = Some s'
             \<and> steps_to s [(of_nat (i * 4096 + j),
                             the (sevenseg_getOutputByte (of_nat (i * 4096 + j))))] [] s'"
proof -
  have a: "push_bit 12 (of_nat i) OR of_nat j = (of_nat (i * 4096 + j) :: uint16)"
    using page_address [of j 12 i] assms(1) by simp
  from sevenseg_byte_defined [of "of_nat (i * 4096 + j)"]
  obtain b where b: "sevenseg_getOutputByte (of_nat (i * 4096 + j)) = Some b"
    by auto
  show ?thesis
    unfolding sevenseg_program_def a Let_def delay_def b
    using write_cycle [OF assms(2), of "of_nat (i * 4096 + j)" b] by simp
qed

section \<open>Where the two encoders are defined\<close>








section \<open>The programming sweeps\<close>

lemma pages_concat:
  "concat (map (\<lambda>i. map (\<lambda>j. h (i * m + j)) [0..<m]) [0..<n]) = map h [0..<n * m]"
proof (induction n)
  case 0
  show ?case by simp
next
  case (Suc n)
  have 1: "[0..<n * m + m] = [0..<n * m] @ [n * m..<n * m + m]"
    by (rule upt_add_eq_append) simp
  have 2: "[n * m..<m + n * m] = map (\<lambda>j. j + n * m) [0..<m]"
    by (rule map_add_upt [symmetric])
  have 3: "n * m + m = m + n * m"
    by simp
  have 4: "Suc n * m = n * m + m"
    by simp
  have "[0..<Suc n * m] = [0..<n * m] @ map (\<lambda>j. j + n * m) [0..<m]"
    unfolding 4 1 unfolding 3 2 ..
  then have "map h [0..<Suc n * m] = map h [0..<n * m] @ map (\<lambda>j. h (n * m + j)) [0..<m]"
    by (simp add: o_def add.commute)
  moreover have "concat (map (\<lambda>i. map (\<lambda>j. h (i * m + j)) [0..<m]) [0..<Suc n])
      = concat (map (\<lambda>i. map (\<lambda>j. h (i * m + j)) [0..<m]) [0..<n])
        @ map (\<lambda>j. h (n * m + j)) [0..<m]"
    by simp
  ultimately show ?case
    by (simp only: Suc.IH)
qed

lemma concat_nils: "concat (map (\<lambda>x. []) xs) = []"
  by (induction xs) simp_all

lemma dots_concat: "concat (map (\<lambda>i. [c]) xs) = replicate (length xs) c"
  by (induction xs) simp_all

lemma ucode_page:
  assumes "i < 4" "idle s"
  shows "\<exists>s'. map_option (Serial_write CHR ''.'')
               (for_each [0..<512] (ucode_program mro pci i) s) = Some s'
             \<and> steps_to s
                 (map (\<lambda>j. (of_nat (i * 512 + j),
                            the (ucode_getOutputByte mro pci (of_nat (i * 512 + j))))) [0..<512])
                 ''.'' s'"
proof -
  have "\<exists>s'. for_each [0..<512] (ucode_program mro pci i) s = Some s'
             \<and> steps_to s
                 (concat (map (\<lambda>j. [(of_nat (i * 512 + j),
                            the (ucode_getOutputByte mro pci (of_nat (i * 512 + j))))]) [0..<512]))
                 (concat (map (\<lambda>j. []) [0..<512])) s'"
  proof (rule for_each_steps)
    fix x t
    assume "x \<in> set [0..<512]" "idle t"
    then have "x < 512" by simp
    from ucode_program_step [OF assms(1) this \<open>idle t\<close>]
    show "\<exists>t'. ucode_program mro pci i x t = Some t'
               \<and> steps_to t [(of_nat (i * 512 + x),
                              the (ucode_getOutputByte mro pci (of_nat (i * 512 + x))))] [] t'" .
  qed (rule assms)
  then obtain t where t: "for_each [0..<512] (ucode_program mro pci i) s = Some t"
      "steps_to s
         (map (\<lambda>j. (of_nat (i * 512 + j),
                    the (ucode_getOutputByte mro pci (of_nat (i * 512 + j))))) [0..<512]) [] t"
    unfolding concat_map_singleton concat_nils by blast
  from steps_to_Serial_write [OF t(2), of "CHR ''.''"] t(1) show ?thesis
    by simp
qed

lemma ucode_table_sweep:
  assumes "idle s"
  shows "\<exists>s'. for_each [0..<4]
               (\<lambda>i s. map_option (Serial_write CHR ''.'')
                        (for_each [0..<512] (ucode_program mro pci i) s)) s = Some s'
             \<and> steps_to s
                 (map (\<lambda>a. (of_nat a, the (ucode_getOutputByte mro pci (of_nat a)))) [0..<2048])
                 (replicate 4 CHR ''.'') s'"
proof -
  have "\<exists>s'. for_each [0..<4]
               (\<lambda>i s. map_option (Serial_write CHR ''.'')
                        (for_each [0..<512] (ucode_program mro pci i) s)) s = Some s'
             \<and> steps_to s
                 (concat (map (\<lambda>i. map (\<lambda>j. (of_nat (i * 512 + j),
                            the (ucode_getOutputByte mro pci (of_nat (i * 512 + j))))) [0..<512])
                     [0..<4]))
                 (concat (map (\<lambda>i. ''.'') [0..<4])) s'"
  proof (rule for_each_steps)
    fix x t
    assume "x \<in> set [0..<4]" "idle t"
    then have "x < 4" by simp
    from ucode_page [OF this \<open>idle t\<close>]
    show "\<exists>t'. map_option (Serial_write CHR ''.'')
                 (for_each [0..<512] (ucode_program mro pci x) t) = Some t'
               \<and> steps_to t
                   (map (\<lambda>j. (of_nat (x * 512 + j),
                              the (ucode_getOutputByte mro pci (of_nat (x * 512 + j))))) [0..<512])
                   ''.'' t'" .
  qed (rule assms)
  moreover have "concat (map (\<lambda>i. map (\<lambda>j. (of_nat (i * 512 + j) :: uint16,
                            the (ucode_getOutputByte mro pci (of_nat (i * 512 + j))))) [0..<512])
                     [0..<4])
                 = map (\<lambda>a. (of_nat a :: uint16, the (ucode_getOutputByte mro pci (of_nat a)))) [0..<4 * 512]"
    by (rule pages_concat)
  moreover have "concat (map (\<lambda>i. ''.'') [0..<4]) = replicate 4 CHR ''.''"
    using dots_concat [of "CHR ''.''" "[0..<4]"] by simp
  moreover have "(4 :: nat) * 512 = 2048"
    by simp
  ultimately show ?thesis
    by (simp only:)
qed

lemma sevenseg_page:
  assumes "idle s"
  shows "\<exists>s'. map_option (Serial_write CHR ''.'')
               (for_each [0..<4096] (sevenseg_program i) s) = Some s'
             \<and> steps_to s
                 (map (\<lambda>j. (of_nat (i * 4096 + j),
                            the (sevenseg_getOutputByte (of_nat (i * 4096 + j))))) [0..<4096])
                 ''.'' s'"
proof -
  have "\<exists>s'. for_each [0..<4096] (sevenseg_program i) s = Some s'
             \<and> steps_to s
                 (concat (map (\<lambda>j. [(of_nat (i * 4096 + j),
                            the (sevenseg_getOutputByte (of_nat (i * 4096 + j))))]) [0..<4096]))
                 (concat (map (\<lambda>j. []) [0..<4096])) s'"
  proof (rule for_each_steps)
    fix x t
    assume "x \<in> set [0..<4096]" "idle t"
    then have "x < 4096" by simp
    from sevenseg_program_step [OF this \<open>idle t\<close>]
    show "\<exists>t'. sevenseg_program i x t = Some t'
               \<and> steps_to t [(of_nat (i * 4096 + x),
                              the (sevenseg_getOutputByte (of_nat (i * 4096 + x))))] [] t'" .
  qed (rule assms)
  then obtain t where t: "for_each [0..<4096] (sevenseg_program i) s = Some t"
      "steps_to s
         (map (\<lambda>j. (of_nat (i * 4096 + j),
                    the (sevenseg_getOutputByte (of_nat (i * 4096 + j))))) [0..<4096]) [] t"
    unfolding concat_map_singleton concat_nils by blast
  from steps_to_Serial_write [OF t(2), of "CHR ''.''"] t(1) show ?thesis
    by simp
qed

lemma sevenseg_sweep:
  assumes "idle s"
  shows "\<exists>s'. for_each [0..<8]
               (\<lambda>i s. map_option (Serial_write CHR ''.'')
                        (for_each [0..<4096] (sevenseg_program i) s)) s = Some s'
             \<and> steps_to s
                 (map (\<lambda>a. (of_nat a, the (sevenseg_getOutputByte (of_nat a)))) [0..<32768])
                 (replicate 8 CHR ''.'') s'"
proof -
  have "\<exists>s'. for_each [0..<8]
               (\<lambda>i s. map_option (Serial_write CHR ''.'')
                        (for_each [0..<4096] (sevenseg_program i) s)) s = Some s'
             \<and> steps_to s
                 (concat (map (\<lambda>i. map (\<lambda>j. (of_nat (i * 4096 + j),
                            the (sevenseg_getOutputByte (of_nat (i * 4096 + j))))) [0..<4096])
                     [0..<8]))
                 (concat (map (\<lambda>i. ''.'') [0..<8])) s'"
  proof (rule for_each_steps)
    fix x t
    assume "x \<in> set [0..<8]" "idle t"
    from sevenseg_page [OF this(2)]
    show "\<exists>t'. map_option (Serial_write CHR ''.'')
                 (for_each [0..<4096] (sevenseg_program x) t) = Some t'
               \<and> steps_to t
                   (map (\<lambda>j. (of_nat (x * 4096 + j),
                              the (sevenseg_getOutputByte (of_nat (x * 4096 + j))))) [0..<4096])
                   ''.'' t'" .
  qed (rule assms)
  moreover have "concat (map (\<lambda>i. map (\<lambda>j. (of_nat (i * 4096 + j) :: uint16,
                            the (sevenseg_getOutputByte (of_nat (i * 4096 + j))))) [0..<4096])
                     [0..<8])
                 = map (\<lambda>a. (of_nat a :: uint16, the (sevenseg_getOutputByte (of_nat a)))) [0..<8 * 4096]"
    by (rule pages_concat)
  moreover have "concat (map (\<lambda>i. ''.'') [0..<8]) = replicate 8 CHR ''.''"
    using dots_concat [of "CHR ''.''" "[0..<8]"] by simp
  moreover have "(8 :: nat) * 4096 = 32768"
    by simp
  ultimately show ?thesis
    by (simp only:)
qed

section \<open>Pin set-up, the zero fill and its progress marks\<close>

lemma fold_pinMode:
  "fold (\<lambda>i. pinMode (g i) m) xs s
     = s\<lparr>pin_output := fold (\<lambda>i po. po(g i := m)) xs (pin_output s)\<rparr>"
  by (induction xs arbitrary: s) (simp_all add: pinMode_def)

lemma setup_pins_idle:
  "idle (setup_pins s) \<and> writes (setup_pins s) = writes s
   \<and> eeprom (setup_pins s) = eeprom s \<and> serial (setup_pins s) = serial s"
  by (simp add: setup_pins_def Let_def fold_pinMode [of "\<lambda>i. i"] pinMode_def digitalWrite_def
      idle_def pin_defs)

lemma unat_succ16:
  assumes "i < 65535"
  shows "unat (of_nat i + 1 :: uint16) = i + 1"
proof -
  have "unat (of_nat (Suc i) :: uint16) = Suc i"
    using assms by (intro unat_of_nat16) simp
  then show ?thesis
    by (simp add: add.commute)
qed

lemma unat_and511: "unat ((x :: uint16) AND 511) = unat x mod 512"
proof -
  have "x AND 511 = take_bit 9 x"
    by (simp add: take_bit_eq_mask mask_eq_exp_minus_1)
  then show ?thesis
    by (simp add: unsigned_take_bit_eq take_bit_eq_mod unat_mod)
qed

lemma unat_and15: "unat ((x :: uint16) AND 15) = unat x mod 16"
proof -
  have "x AND 15 = take_bit 4 x"
    by (simp add: take_bit_eq_mask mask_eq_exp_minus_1)
  then show ?thesis
    by (simp add: unsigned_take_bit_eq take_bit_eq_mod unat_mod)
qed

lemma fill_condition:
  assumes "i < 65535"
  shows "((of_nat i + 1 :: uint16) AND 511) = 0 \<longleftrightarrow> (i + 1) mod 512 = 0"
proof -
  have "unat ((of_nat i + 1 :: uint16) AND 511) = (i + 1) mod 512"
    by (simp only: unat_and511 unat_succ16 [OF assms])
  then show ?thesis
    by (metis unat_eq_0)
qed

lemma newline_condition:
  assumes "i < 65535"
  shows "((of_nat i + 1 :: uint16) AND 15) \<noteq> 0 \<longleftrightarrow> (i + 1) mod 16 \<noteq> 0"
proof -
  have "unat ((of_nat i + 1 :: uint16) AND 15) = (i + 1) mod 16"
    by (simp only: unat_and15 unat_succ16 [OF assms])
  then show ?thesis
    by (metis unat_eq_0)
qed

lemma ucode_fill_step:
  assumes "i < 8192" "idle s"
  shows "steps_to s [(of_nat i, 0)] (if (i + 1) mod 512 = 0 then ''.'' else []) (ucode_fill i s)"
proof -
  have c: "((of_nat i + 1 :: uint16) AND 511) = 0 \<longleftrightarrow> (i + 1) mod 512 = 0"
    using assms(1) by (intro fill_condition) simp
  note w = write_cycle [OF assms(2), of "of_nat i" 0]
  show ?thesis
    unfolding ucode_fill_def Let_def delay_def c
    using w steps_to_Serial_write [OF w, of "CHR ''.''"]
    by (cases "(i + 1) mod 512 = 0") simp_all
qed


lemma concat_all_nil:
  assumes "\<And>x. x \<in> set xs \<Longrightarrow> f x = []"
  shows "concat (map f xs) = []"
  using assms by (induction xs) simp_all

lemma one_page_dot:
  assumes "0 < m"
  shows "concat (map (\<lambda>i. if (i + 1) mod m = 0 then [c] else []) [b * m..<b * m + m]) = [c]"
proof -
  obtain k where m: "m = Suc k"
    using assms by (cases m) auto
  have u: "[b * m..<b * m + m] = [b * m..<b * m + k] @ [b * m + k]"
    by (simp add: m)
  have z: "(if (i + 1) mod m = 0 then [c] else []) = []" if "i \<in> set [b * m..<b * m + k]" for i
  proof -
    from that obtain r where r: "i = b * m + r" "r < k"
      by (auto simp: le_iff_add)
    then have "(i + 1) mod m = (Suc r + b * m) mod m"
      by (simp add: add.commute)
    also have "\<dots> = Suc r mod m"
      by simp
    also have "\<dots> = Suc r"
      using r(2) m by simp
    finally show ?thesis by simp
  qed
  have l: "(b * m + k + 1) mod m = 0"
  proof -
    have "b * m + k + 1 = m + b * m"
      by (simp add: m)
    moreover have "(m + b * m) mod m = 0"
      by simp
    ultimately show ?thesis
      by (simp only:)
  qed
  show ?thesis
    unfolding u using l
    by (simp only: map_append concat_append concat_all_nil [of _ _, OF z]) simp
qed

lemma page_dots:
  assumes "0 < m"
  shows "concat (map (\<lambda>i. if (i + 1) mod m = 0 then [c] else []) [a * m..<(a + n) * m])
           = replicate n c"
proof (induction n)
  case 0
  show ?case by simp
next
  case (Suc n)
  have "[a * m..<(a + n) * m + m] = [a * m..<(a + n) * m] @ [(a + n) * m..<(a + n) * m + m]"
    by (rule upt_add_eq_append) simp
  moreover have "(a + Suc n) * m = (a + n) * m + m"
    by simp
  ultimately have "[a * m..<(a + Suc n) * m]
      = [a * m..<(a + n) * m] @ [(a + n) * m..<(a + n) * m + m]"
    by (simp only:)
  then show ?case
    by (simp only: map_append concat_append Suc.IH one_page_dot [OF assms])
       (simp add: replicate_append_same)
qed

lemma ucode_fill_sweep:
  assumes "idle s"
  shows "steps_to s (map (\<lambda>i. (of_nat i, 0)) [2048..<8192]) (replicate 12 CHR ''.'')
           (fold ucode_fill [2048..<8192] s)"
proof -
  have "steps_to s (concat (map (\<lambda>i. [(of_nat i :: uint16, 0 :: uchar)]) [2048..<8192]))
          (concat (map (\<lambda>i. if (i + 1) mod 512 = 0 then ''.'' else []) [2048..<8192]))
          (fold ucode_fill [2048..<8192] s)"
  proof (rule fold_steps)
    fix x t
    assume "x \<in> set [2048..<8192]" "idle t"
    then have "x < 8192" by (simp only: set_upt atLeastLessThan_iff)
    from ucode_fill_step [OF this \<open>idle t\<close>]
    show "steps_to t [(of_nat x, 0)] (if (x + 1) mod 512 = 0 then ''.'' else []) (ucode_fill x t)" .
  qed (rule assms)
  moreover have "concat (map (\<lambda>i. if (i + 1) mod 512 = 0 then ''.'' else [])
                   [4 * 512..<(4 + 12) * 512]) = replicate 12 CHR ''.''"
    by (rule page_dots) simp
  moreover have "(4 :: nat) * 512 = 2048" "((4 :: nat) + 12) * 512 = 8192"
    by simp_all
  ultimately show ?thesis
    by (simp only: concat_map_singleton)
qed

lemma store_sweep:
  assumes "a < n" "n \<le> 65536"
  shows "store (map (\<lambda>a. (of_nat a :: uint16, g a)) [0..<n]) m (of_nat a) = g a"
  using assms
proof (induction n)
  case 0
  then show ?case by simp
next
  case (Suc n)
  have s: "store (map (\<lambda>a. (of_nat a :: uint16, g a)) [0..<Suc n]) m
             = (store (map (\<lambda>a. (of_nat a, g a)) [0..<n]) m)(of_nat n := g n)"
    by (simp add: store_def)
  show ?case
  proof (cases "a = n")
    case True
    then show ?thesis by (simp only: s fun_upd_same)
  next
    case False
    then have "a < n" using Suc.prems by simp
    moreover have "(of_nat a :: uint16) \<noteq> of_nat n"
      using of_nat16_inj [of a n] False Suc.prems by auto
    ultimately show ?thesis
      using Suc.IH Suc.prems by (simp only: s fun_upd_other) simp
  qed
qed

section \<open>The verification dump\<close>

lemma fold_dump:
  assumes "\<And>x t. x \<in> set xs \<Longrightarrow> reading m t \<Longrightarrow>
             reading m (f x t) \<and> writes (f x t) = writes t \<and> serial (f x t) = serial t @ C x"
    and "reading m s"
  shows "reading m (fold f xs s) \<and> writes (fold f xs s) = writes s
         \<and> serial (fold f xs s) = serial s @ concat (map C xs)"
  using assms
proof (induction xs arbitrary: s)
  case Nil
  then show ?case by simp
next
  case (Cons x xs)
  have t: "reading m (f x s)" "writes (f x s) = writes s" "serial (f x s) = serial s @ C x"
    using Cons.prems by simp_all
  from Cons.IH [of "f x s"] Cons.prems(1) t(1)
  have "reading m (fold f xs (f x s)) \<and> writes (fold f xs (f x s)) = writes (f x s)
         \<and> serial (fold f xs (f x s)) = serial (f x s) @ concat (map C xs)"
    by simp
  then show ?case
    by (simp add: t)
qed

lemma fold_pin_output:
  "fold (\<lambda>i po. po(g i := m)) xs po p = (if p \<in> g ` set xs then m else po p)"
  by (induction xs arbitrary: po) auto

lemma read_stored_byte:
  assumes "reading m s" "\<not> pin_level s SHIFT_CLOCK"
  shows "horner_sum of_bool 2
           (map (\<lambda>pin. digitalRead pin (writeEepromAddress a SHIFT_DATA SHIFT_CLOCK s))
              [EEPROM_DATA_0..<EEPROM_DATA_0 + 8]) = m a"
proof (rule bit_word_eqI)
  fix k
  assume "k < LENGTH(8)"
  then have k: "k < 8" by simp
  have "digitalRead (EEPROM_DATA_0 + k) (writeEepromAddress a SHIFT_DATA SHIFT_CLOCK s)
          = bit (m a) k"
    unfolding writeEepromAddress_latch [OF assms(2)]
    using assms(1) k by (simp add: digitalRead_def reading_def pin_defs)
  then show "bit (horner_sum of_bool 2
           (map (\<lambda>pin. digitalRead pin (writeEepromAddress a SHIFT_DATA SHIFT_CLOCK s))
              [EEPROM_DATA_0..<EEPROM_DATA_0 + 8]) :: uchar) k \<longleftrightarrow> bit (m a) k"
    using k by (simp add: bit_pins_byte)
qed

lemma dump_step:
  assumes rb: "\<And>rd. rb rd = horner_sum of_bool 2 (map rd [EEPROM_DATA_0..<EEPROM_DATA_0 + 8])"
    and "reading m s" "i < 65535"
  defines "t \<equiv> (let s' = writeEepromAddress (of_nat i) SHIFT_DATA SHIFT_CLOCK s;
                     data = rb (\<lambda>pin. digitalRead pin s')
                 in write_hex (of_nat i) data s')"
  shows "reading m t \<and> writes t = writes s \<and> serial t = serial s @ dump_text i (m (of_nat i))"
proof -
  have c: "\<not> pin_level s SHIFT_CLOCK"
    using assms(2) by (simp add: reading_def)
  define s' where "s' = writeEepromAddress (of_nat i) SHIFT_DATA SHIFT_CLOCK s"
  have d: "rb (\<lambda>pin. digitalRead pin s') = m (of_nat i)"
    unfolding rb s'_def by (rule read_stored_byte [OF assms(2) c])
  have t: "t = write_hex (of_nat i) (m (of_nat i)) s'"
    unfolding t_def Let_def s'_def [symmetric] d ..
  have s': "s' = s\<lparr>pin_level := (pin_level s)(SHIFT_DATA := bit (of_nat i :: uint16) 0),
                    addr_latch := of_nat i\<rparr>"
    unfolding s'_def by (rule writeEepromAddress_latch [OF c])
  have r: "reading m s'"
    using assms(2) by (simp add: s' reading_def pin_defs)
  have n: "((of_nat i + 1 :: uint16) AND 15) \<noteq> 0 \<longleftrightarrow> (i + 1) mod 16 \<noteq> 0"
    by (rule newline_condition [OF assms(3)])
  have "reading m t"
    using r by (simp add: t write_hex_def Serial_write_def reading_def)
  moreover have "writes t = writes s"
    by (simp add: t write_hex_def Serial_write_def s')
  moreover have "serial t = serial s @ dump_text i (m (of_nat i))"
    unfolding t write_hex_def n by (simp add: Serial_write_def dump_text_def s')
  ultimately show ?thesis by blast
qed


lemma dump_prepare:
  assumes "idle s" "\<And>k. k < 8 \<Longrightarrow> EEPROM_DATA_0 + k \<in> g ` set xs"
  defines "t \<equiv> digitalWrite EEPROM_OE LOW
                  (fold (\<lambda>i. pinMode (g i) INPUT) xs (digitalWrite EEPROM_WE HIGH s))"
  shows "reading (eeprom s) t \<and> writes t = writes s \<and> serial t = serial s"
proof -
  have t: "t = s\<lparr>pin_level := (pin_level s)(EEPROM_WE := True, EEPROM_OE := False),
                  pin_output := fold (\<lambda>i po. po(g i := False)) xs (pin_output s)\<rparr>"
    unfolding t_def fold_pinMode by (simp add: digitalWrite_def pin_defs)
  have "\<not> pin_level s SHIFT_CLOCK"
    using assms(1) by (simp add: idle_def)
  then show ?thesis
    using assms(2) by (simp add: t reading_def fold_pin_output pin_defs)
qed

lemma dump_loop:
  fixes b :: nat
  assumes rb: "\<And>rd. rb rd = horner_sum of_bool 2 (map rd [EEPROM_DATA_0..<EEPROM_DATA_0 + 8])"
    and "reading m s" "e \<le> 65535"
  defines "t \<equiv> fold (\<lambda>i s.
           let s' = writeEepromAddress (of_nat i) SHIFT_DATA SHIFT_CLOCK s;
               data = rb (\<lambda>pin. digitalRead pin s')
           in write_hex (of_nat i) data s') [b..<e] s"
  shows "reading m t \<and> writes t = writes s
         \<and> serial t = serial s @ concat (map (\<lambda>i. dump_text i (m (of_nat i))) [b..<e])"
  unfolding t_def
proof (rule fold_dump)
  fix x t
  assume "x \<in> set [b..<e]" "reading m t"
  then have "x < 65535"
    using assms(3) by (simp only: set_upt atLeastLessThan_iff) linarith
  from dump_step [of rb, OF rb \<open>reading m t\<close> this]
  show "reading m (let s' = writeEepromAddress (of_nat x) SHIFT_DATA SHIFT_CLOCK t;
                       data = rb (\<lambda>pin. digitalRead pin s')
                   in write_hex (of_nat x) data s')
        \<and> writes (let s' = writeEepromAddress (of_nat x) SHIFT_DATA SHIFT_CLOCK t;
                       data = rb (\<lambda>pin. digitalRead pin s')
                   in write_hex (of_nat x) data s') = writes t
        \<and> serial (let s' = writeEepromAddress (of_nat x) SHIFT_DATA SHIFT_CLOCK t;
                       data = rb (\<lambda>pin. digitalRead pin s')
                   in write_hex (of_nat x) data s') = serial t @ dump_text x (m (of_nat x))" .
qed (rule assms(2))

lemma sevenseg_dump:
  assumes "idle s" "e \<le> 65535"
  shows "writes (sevenseg_dumpEeprom b e s) = writes s
       \<and> eeprom (sevenseg_dumpEeprom b e s) = eeprom s
       \<and> serial (sevenseg_dumpEeprom b e s)
           = serial s @ concat (map (\<lambda>i. dump_text i (eeprom s (of_nat i))) [b..<e])"
proof -
  define t where "t = digitalWrite EEPROM_OE LOW
                  (fold (\<lambda>i. pinMode (EEPROM_DATA_0 + i) INPUT) [0..<8]
                    (digitalWrite EEPROM_WE HIGH s))"
  have p: "reading (eeprom s) t \<and> writes t = writes s \<and> serial t = serial s"
    unfolding t_def by (rule dump_prepare [OF assms(1)]) simp
  have d: "sevenseg_dumpEeprom b e s = fold (\<lambda>i s.
           let s' = writeEepromAddress (of_nat i) SHIFT_DATA SHIFT_CLOCK s;
               data = sevenseg_readByte (\<lambda>pin. digitalRead pin s')
           in write_hex (of_nat i) data s') [b..<e] t"
    unfolding sevenseg_dumpEeprom_def t_def Let_def ..
  from dump_loop [of sevenseg_readByte "eeprom s" t e b, OF sevenseg_readByte_eq _ assms(2)] p
  show ?thesis
    unfolding d by (simp add: reading_def)
qed

lemma ucode_dump:
  assumes "idle s" "e \<le> 65535"
  shows "writes (ucode_dumpEeprom b e s) = writes s
       \<and> eeprom (ucode_dumpEeprom b e s) = eeprom s
       \<and> serial (ucode_dumpEeprom b e s)
           = serial s @ concat (map (\<lambda>i. dump_text i (eeprom s (of_nat i))) [b..<e])"
proof -
  define t where "t = digitalWrite EEPROM_OE LOW
                  (fold (\<lambda>i. pinMode i INPUT) [EEPROM_DATA_0..<EEPROM_DATA_0 + 8]
                    (digitalWrite EEPROM_WE HIGH s))"
  have p: "reading (eeprom s) t \<and> writes t = writes s \<and> serial t = serial s"
    unfolding t_def by (rule dump_prepare [OF assms(1)]) simp
  have d: "ucode_dumpEeprom b e s = fold (\<lambda>i s.
           let s' = writeEepromAddress (of_nat i) SHIFT_DATA SHIFT_CLOCK s;
               data = ucode_readByte (\<lambda>pin. digitalRead pin s')
           in write_hex (of_nat i) data s') [b..<e] t"
    unfolding ucode_dumpEeprom_def t_def Let_def ..
  from dump_loop [of ucode_readByte "eeprom s" t e b, OF ucode_readByte_eq _ assms(2)] p
  show ?thesis
    unfolding d by (simp add: reading_def)
qed

section \<open>A whole run of each sketch\<close>

lemma ucode_writes_list:
  "map (\<lambda>a. (of_nat a :: uint16, the (ucode_getOutputByte mro pci (of_nat a)))) [0..<2048]
     @ map (\<lambda>i. (of_nat i, 0)) [2048..<8192]
   = map (\<lambda>a. (of_nat a, ucode_image mro pci a)) [0..<8192]"
proof -
  have "[0..<2048 + 6144] = [0..<2048] @ [2048..<2048 + 6144]"
    by (rule upt_add_eq_append) simp
  moreover have "(2048 :: nat) + 6144 = 8192"
    by simp
  ultimately have u: "[0..<8192] = [0..<2048] @ [2048..<8192]"
    by (simp only:)
  have 1: "map (\<lambda>a. (of_nat a :: uint16, ucode_image mro pci a)) [0..<2048]
             = map (\<lambda>a. (of_nat a, the (ucode_getOutputByte mro pci (of_nat a)))) [0..<2048]"
    by (rule map_cong) (simp_all add: ucode_image_def)
  have 2: "map (\<lambda>a. (of_nat a :: uint16, ucode_image mro pci a)) [2048..<8192]
             = map (\<lambda>i. (of_nat i, 0)) [2048..<8192]"
  proof (rule map_cong)
    fix x
    assume "x \<in> set [2048..<8192]"
    then have "\<not> x < 2048"
      by (simp only: set_upt atLeastLessThan_iff) linarith
    then show "(of_nat x :: uint16, ucode_image mro pci x) = (of_nat x, 0)"
      by (simp add: ucode_image_def)
  qed (rule refl)
  show ?thesis
    by (simp only: u map_append 1 2)
qed

lemma ucode_image_stored:
  assumes "a < 8192"
  shows "store (map (\<lambda>a. (of_nat a, ucode_image mro pci a)) [0..<8192]) m (of_nat a)
           = ucode_image mro pci a"
  using assms by (intro store_sweep) simp_all

lemma sevenseg_setup_run:
  "\<exists>s'. sevenseg_setup s = Some s'
     \<and> writes s' = writes s @ map (\<lambda>a. (of_nat a, sevenseg_image a)) [0..<32768]
     \<and> eeprom s' = store (map (\<lambda>a. (of_nat a, sevenseg_image a)) [0..<32768]) (eeprom s)
     \<and> serial s' = serial s @ ''Programming'' @ replicate 8 CHR ''.''
          @ [CHR 0x0A] @ ''Finished'' @ [CHR 0x0A]
          @ concat (map (\<lambda>i. dump_text i (sevenseg_image i)) [0..<4096])"
proof -
  define W where "W = map (\<lambda>a. (of_nat a :: uint16, sevenseg_image a)) [0..<32768]"
  define s1 where "s1 = setup_pins (Serial_write_str ''Programming'' s)"
  have i1: "idle s1" and w1: "writes s1 = writes s" and e1: "eeprom s1 = eeprom s"
    and o1: "serial s1 = serial s @ ''Programming''"
    using setup_pins_idle [of "Serial_write_str ''Programming'' s"]
    by (simp_all add: s1_def Serial_write_str_def)
  from sevenseg_sweep [OF i1]
  obtain s2 where s2: "for_each [0..<8]
               (\<lambda>i s. map_option (Serial_write CHR ''.'')
                        (for_each [0..<4096] (sevenseg_program i) s)) s1 = Some s2"
      "steps_to s1 W (replicate 8 CHR ''.'') s2"
    unfolding W_def sevenseg_image_def by blast
  define s3 where "s3 = Serial_write_str (CHR 0x0A # ''Finished'' @ [CHR 0x0A]) (delay 10 s2)"
  have s3: "steps_to s1 W (replicate 8 CHR ''.'' @ (CHR 0x0A # ''Finished'' @ [CHR 0x0A])) s3"
    unfolding s3_def delay_def by (rule steps_to_Serial_write_str [OF s2(2)])
  then have i3: "idle s3"
    by (simp add: steps_to_def)
  have le: "(4096 :: nat) \<le> 65535"
    by simp
  note d = sevenseg_dump [OF i3 le, of 0]
  have r: "sevenseg_setup s = Some (sevenseg_dumpEeprom 0 4096 s3)"
    unfolding sevenseg_setup_def Let_def s1_def [symmetric] s2(1) s3_def by simp
  have w: "writes s3 = writes s @ W" and e: "eeprom s3 = store W (eeprom s)"
    and o: "serial s3 = serial s @ ''Programming'' @ replicate 8 CHR ''.''
          @ [CHR 0x0A] @ ''Finished'' @ [CHR 0x0A]"
    using s3 by (simp_all add: steps_to_def w1 e1 o1)
  have m: "map (\<lambda>i. dump_text i (eeprom s3 (of_nat i))) [0..<4096]
             = map (\<lambda>i. dump_text i (sevenseg_image i)) [0..<4096]"
  proof (rule map_cong)
    fix x
    assume "x \<in> set [0..<4096]"
    then have "x < 32768" by simp
    then show "dump_text x (eeprom s3 (of_nat x)) = dump_text x (sevenseg_image x)"
      unfolding e W_def by (simp only: store_sweep [of x 32768])
  qed (rule refl)
  have dw: "writes (sevenseg_dumpEeprom 0 4096 s3) = writes s3" and de: "eeprom (sevenseg_dumpEeprom 0 4096 s3) = eeprom s3"
    using d by blast+
  have ds: "serial (sevenseg_dumpEeprom 0 4096 s3)
              = serial s3 @ concat (map (\<lambda>i. dump_text i (sevenseg_image i)) [0..<4096])"
    using d unfolding m by blast
  show ?thesis
    unfolding r using dw de ds w e o by (simp add: W_def)
qed


lemma ucode_setup_run:
  "\<exists>s'. ucode_setup mro pci s = Some s'
     \<and> writes s' = writes s @ map (\<lambda>a. (of_nat a, ucode_image mro pci a)) [0..<8192]
     \<and> eeprom s' = store (map (\<lambda>a. (of_nat a, ucode_image mro pci a)) [0..<8192]) (eeprom s)
     \<and> serial s' = serial s @ ''Programming'' @ replicate 16 CHR ''.''
          @ [CHR 0x0A] @ ''Finished'' @ [CHR 0x0A]
          @ concat (map (\<lambda>i. dump_text i (ucode_image mro pci i)) [0..<512])"
proof -
  define W where "W = map (\<lambda>a. (of_nat a :: uint16, ucode_image mro pci a)) [0..<8192]"
  define s1 where "s1 = setup_pins (Serial_write_str ''Programming'' s)"
  have i1: "idle s1" and w1: "writes s1 = writes s" and e1: "eeprom s1 = eeprom s"
    and o1: "serial s1 = serial s @ ''Programming''"
    using setup_pins_idle [of "Serial_write_str ''Programming'' s"]
    by (simp_all add: s1_def Serial_write_str_def)
  from ucode_table_sweep [OF i1, of mro pci]
  obtain s2 where s2: "for_each [0..<4]
               (\<lambda>i s. map_option (Serial_write CHR ''.'')
                        (for_each [0..<512] (ucode_program mro pci i) s)) s1 = Some s2"
      "steps_to s1
         (map (\<lambda>a. (of_nat a, the (ucode_getOutputByte mro pci (of_nat a)))) [0..<2048])
         (replicate 4 CHR ''.'') s2"
    by blast
  then have i2: "idle s2"
    by (simp add: steps_to_def)
  define s3 where "s3 = fold ucode_fill [2048..<8192] s2"
  have "steps_to s1
          (map (\<lambda>a. (of_nat a, the (ucode_getOutputByte mro pci (of_nat a)))) [0..<2048]
             @ map (\<lambda>i. (of_nat i, 0)) [2048..<8192])
          (replicate 4 CHR ''.'' @ replicate 12 CHR ''.'') s3"
    unfolding s3_def by (rule steps_to_trans [OF s2(2) ucode_fill_sweep [OF i2]])
  moreover have "replicate 4 CHR ''.'' @ replicate 12 CHR ''.'' = replicate 16 CHR ''.''"
    by (simp add: replicate_add [symmetric])
  ultimately have s3: "steps_to s1 W (replicate 16 CHR ''.'') s3"
    unfolding W_def by (simp only: ucode_writes_list)
  define s4 where "s4 = Serial_write_str (CHR 0x0A # ''Finished'' @ [CHR 0x0A])
                          (delay (EEPROM_WRITE_DELAY * 10) s3)"
  have s4: "steps_to s1 W (replicate 16 CHR ''.'' @ (CHR 0x0A # ''Finished'' @ [CHR 0x0A])) s4"
    unfolding s4_def delay_def by (rule steps_to_Serial_write_str [OF s3])
  then have i4: "idle s4"
    by (simp add: steps_to_def)
  have le: "(512 :: nat) \<le> 65535"
    by simp
  note d = ucode_dump [OF i4 le, of 0]
  have r: "ucode_setup mro pci s = Some (ucode_dumpEeprom 0 512 s4)"
    unfolding ucode_setup_def Let_def s1_def [symmetric] s2(1) option.case
      s3_def [symmetric] s4_def [symmetric] ..
  have w: "writes s4 = writes s @ W" and e: "eeprom s4 = store W (eeprom s)"
    and o: "serial s4 = serial s @ ''Programming'' @ replicate 16 CHR ''.''
          @ [CHR 0x0A] @ ''Finished'' @ [CHR 0x0A]"
    using s4 by (simp_all add: steps_to_def w1 e1 o1)
  have m: "map (\<lambda>i. dump_text i (eeprom s4 (of_nat i))) [0..<512]
             = map (\<lambda>i. dump_text i (ucode_image mro pci i)) [0..<512]"
  proof (rule map_cong)
    fix x
    assume "x \<in> set [0..<512]"
    then have "x < 8192" by simp
    then show "dump_text x (eeprom s4 (of_nat x)) = dump_text x (ucode_image mro pci x)"
      unfolding e W_def by (simp only: store_sweep [of x 8192])
  qed (rule refl)
  have dw: "writes (ucode_dumpEeprom 0 512 s4) = writes s4" and de: "eeprom (ucode_dumpEeprom 0 512 s4) = eeprom s4"
    using d by blast+
  have ds: "serial (ucode_dumpEeprom 0 512 s4)
              = serial s4 @ concat (map (\<lambda>i. dump_text i (ucode_image mro pci i)) [0..<512])"
    using d unfolding m by blast
  show ?thesis
    unfolding r using dw de ds w e o by (simp add: W_def)
qed

section \<open>The data bus\<close>

text \<open>
  Claim C7. \<open>writeEepromByte\<close> drives bit \<open>k\<close> of the byte onto pin \<open>EEPROM_DATA_0 + k\<close>; the
  read loop of \<open>ucode.ino\<close>'s dump puts the level of pin \<open>EEPROM_DATA_0 + k\<close> into bit \<open>k\<close>;
  so reading the pins back right after a write gives the byte written, from the levels
  driven and, while the data pins are outputs, through \<open>digitalRead\<close>.
\<close>

theorem data_bus_round_trip:
  "(\<forall>k<8. pin_level (writeEepromByte b EEPROM_DATA_0 EEPROM_WE s) (EEPROM_DATA_0 + k) = bit b k)
   \<and> (\<forall>k<8. bit (ucode_readByte rd) k = rd (EEPROM_DATA_0 + k))
   \<and> ucode_readByte (pin_level (writeEepromByte b EEPROM_DATA_0 EEPROM_WE s)) = b
   \<and> ((\<forall>k<8. pin_output s (EEPROM_DATA_0 + k)) \<longrightarrow>
        ucode_readByte (\<lambda>pin. digitalRead pin (writeEepromByte b EEPROM_DATA_0 EEPROM_WE s)) = b)"
proof -
  let ?s = "writeEepromByte b EEPROM_DATA_0 EEPROM_WE s"
  have w: "\<forall>k<8. pin_level ?s (EEPROM_DATA_0 + k) = bit b k"
    by (simp add: data_pins_after_write)
  have r: "\<forall>k<8. bit (ucode_readByte rd) k = rd (EEPROM_DATA_0 + k)"
    by (simp add: bit_ucode_readByte)
  have rt: "ucode_readByte (pin_level ?s) = b"
    by (simp only: ucode_readByte_eq read_pins_after_write)
  have po: "pin_output ?s = pin_output s"
    by (rule pin_output_writeEepromByte)
  have dr: "ucode_readByte (\<lambda>pin. digitalRead pin ?s) = b"
    if "\<forall>k<8. pin_output s (EEPROM_DATA_0 + k)"
  proof (rule bit_word_eqI)
    fix k
    assume "k < LENGTH(8)"
    then have k: "k < 8" by simp
    then have "digitalRead (EEPROM_DATA_0 + k) ?s = pin_level ?s (EEPROM_DATA_0 + k)"
      using that by (simp add: digitalRead_def po)
    then show "bit (ucode_readByte (\<lambda>pin. digitalRead pin ?s)) k \<longleftrightarrow> bit b k"
      using k by (simp add: bit_ucode_readByte data_pins_after_write)
  qed
  show ?thesis
    using w r rt dr by blast
qed

text \<open>The theorem at the byte \<open>0xA5\<close> on a board whose pins are all outputs.\<close>

theorem data_bus_round_trip_witness:
  "(3 :: nat) < 8
   \<and> pin_level (writeEepromByte 0xA5 EEPROM_DATA_0 EEPROM_WE board0) (EEPROM_DATA_0 + 3)
       = bit (0xA5 :: uchar) 3
   \<and> pin_output board0 (EEPROM_DATA_0 + 3)
   \<and> ucode_readByte (\<lambda>pin. digitalRead pin (writeEepromByte 0xA5 EEPROM_DATA_0 EEPROM_WE board0))
       = 0xA5"
  using data_bus_round_trip [of "0xA5" board0]
  by (simp add: board0_def)

text \<open>
  Claim C10. For every assignment of levels to the pins, the ascending read loop of
  \<open>sevenseg.ino\<close> and the descending read loop of \<open>ucode.ino\<close> give the same byte, whose bit
  \<open>k\<close> is the level of pin \<open>EEPROM_DATA_0 + k\<close>.
\<close>

theorem read_loops_agree:
  "sevenseg_readByte rd = ucode_readByte rd
   \<and> (\<forall>k<8. bit (sevenseg_readByte rd) k = rd (EEPROM_DATA_0 + k))
   \<and> (\<forall>k<8. bit (ucode_readByte rd) k = rd (EEPROM_DATA_0 + k))"
  by (simp add: sevenseg_readByte_eq ucode_readByte_eq bit_pins_byte)

text \<open>The theorem at the levels where exactly the pins 6 and 12 are high.\<close>

theorem read_loops_agree_witness:
  "sevenseg_readByte (\<lambda>p. p = 6 \<or> p = 12) = ucode_readByte (\<lambda>p. p = 6 \<or> p = 12)
   \<and> (1 :: nat) < 8 \<and> bit (sevenseg_readByte (\<lambda>p. p = 6 \<or> p = 12)) 1
   \<and> (2 :: nat) < 8 \<and> \<not> bit (ucode_readByte (\<lambda>p. p = 6 \<or> p = 12)) 2"
  using read_loops_agree [of "\<lambda>p. p = 6 \<or> p = 12"]
  by (simp add: pin_defs)

section \<open>What a run leaves in the device and on the serial line\<close>

lemma hex_indices: "unat (drop_bit 4 (d :: uchar)) < 16 \<and> unat (d AND 15) < 16"
proof -
  have "unat (drop_bit 4 d) = unat d div 16"
    by (simp add: unat_drop_bit_eq drop_bit_eq_div unat_div)
  moreover have "unat d < 256"
    using unsigned_less [of d] by simp
  moreover have "unat (d AND 15) \<le> 15"
    using word_and_le1 [of d 15] by (simp add: word_le_nat_alt)
  ultimately show ?thesis
    by simp
qed

lemma sevenseg_store:
  assumes "a < 32768"
  shows "store (map (\<lambda>a. (of_nat a, sevenseg_image a)) [0..<32768]) m (of_nat a)
           = sevenseg_image a"
  using assms by (intro store_sweep) simp_all

text \<open>
  Claim C8. Started in any state, \<open>setup\<close> of \<open>ucode.ino\<close> returns, and the write cycles it adds
  are those of the addresses 0 to 8191 in ascending order, once each, the byte being
  \<open>getOutputByte(address)\<close> below 2048 and zero from 2048 on; afterwards the device holds that
  byte at each of these addresses. \<open>setup\<close> of \<open>sevenseg.ino\<close> does the same over the addresses
  0 to 32767 with its \<open>getOutputByte\<close>. An address is presented high byte first, each byte most
  significant bit first: after \<open>writeEepromAddress\<close> the shift register holds the address.
\<close>

theorem programming_sweep:
  "(\<exists>s'. ucode_setup mro pci s = Some s'
      \<and> writes s' = writes s @ map (\<lambda>a. (of_nat a, ucode_image mro pci a)) [0..<8192]
      \<and> (\<forall>a<8192. eeprom s' (of_nat a) = ucode_image mro pci a))
   \<and> (\<forall>a<2048. ucode_getOutputByte mro pci (of_nat a) = Some (ucode_image mro pci a))
   \<and> (\<forall>a. 2048 \<le> a \<longrightarrow> ucode_image mro pci a = 0)
   \<and> (\<exists>s'. sevenseg_setup s = Some s'
      \<and> writes s' = writes s @ map (\<lambda>a. (of_nat a, sevenseg_image a)) [0..<32768]
      \<and> (\<forall>a<32768. eeprom s' (of_nat a) = sevenseg_image a))
   \<and> (\<forall>a. sevenseg_getOutputByte (of_nat a) = Some (sevenseg_image a))
   \<and> (\<forall>a t. \<not> pin_level t SHIFT_CLOCK \<longrightarrow>
         addr_latch (writeEepromAddress a SHIFT_DATA SHIFT_CLOCK t) = a)"
proof -
  from ucode_setup_run [of mro pci s]
  obtain u where u: "ucode_setup mro pci s = Some u"
      "writes u = writes s @ map (\<lambda>a. (of_nat a, ucode_image mro pci a)) [0..<8192]"
      "eeprom u = store (map (\<lambda>a. (of_nat a, ucode_image mro pci a)) [0..<8192]) (eeprom s)"
    by blast
  have ue: "\<forall>a<8192. eeprom u (of_nat a) = ucode_image mro pci a"
    unfolding u(3) using ucode_image_stored [of _ mro pci "eeprom s"] by blast
  have p1: "\<exists>s'. ucode_setup mro pci s = Some s'
      \<and> writes s' = writes s @ map (\<lambda>a. (of_nat a, ucode_image mro pci a)) [0..<8192]
      \<and> (\<forall>a<8192. eeprom s' (of_nat a) = ucode_image mro pci a)"
    using u(1,2) ue by blast
  have p2: "\<forall>a<2048. ucode_getOutputByte mro pci (of_nat a) = Some (ucode_image mro pci a)"
    using ucode_byte_defined [of _ mro pci] by (auto simp: ucode_image_def)
  have p3: "\<forall>a. 2048 \<le> a \<longrightarrow> ucode_image mro pci a = 0"
    by (simp add: ucode_image_def)
  from sevenseg_setup_run [of s]
  obtain v where v: "sevenseg_setup s = Some v"
      "writes v = writes s @ map (\<lambda>a. (of_nat a, sevenseg_image a)) [0..<32768]"
      "eeprom v = store (map (\<lambda>a. (of_nat a, sevenseg_image a)) [0..<32768]) (eeprom s)"
    by blast
  have ve: "\<forall>a<32768. eeprom v (of_nat a) = sevenseg_image a"
    unfolding v(3) using sevenseg_store [of _ "eeprom s"] by blast
  have p4: "\<exists>s'. sevenseg_setup s = Some s'
      \<and> writes s' = writes s @ map (\<lambda>a. (of_nat a, sevenseg_image a)) [0..<32768]
      \<and> (\<forall>a<32768. eeprom s' (of_nat a) = sevenseg_image a)"
    using v(1,2) ve by blast
  have p5: "\<forall>a. sevenseg_getOutputByte (of_nat a) = Some (sevenseg_image a)"
    using sevenseg_byte_defined by (auto simp: sevenseg_image_def)
  have p6: "\<forall>a t. \<not> pin_level t SHIFT_CLOCK \<longrightarrow>
         addr_latch (writeEepromAddress a SHIFT_DATA SHIFT_CLOCK t) = a"
    by (simp add: writeEepromAddress_latch)
  show ?thesis
    by (intro conjI) (fact p1 p2 p3 p4 p5 p6)+
qed

text \<open>
  The theorem on a board at rest, the two missing macros taken as 0: address 5 receives the
  low byte of \<open>U_FE0\<close>, address 3000 receives zero, and presenting \<open>0x1234\<close> leaves \<open>0x1234\<close> in
  the shift register.
\<close>

theorem programming_sweep_witness:
  "(5 :: nat) < 8192 \<and> eeprom (the (ucode_setup 0 0 board0)) 5 = 0x0C
   \<and> (3000 :: nat) < 8192 \<and> eeprom (the (ucode_setup 0 0 board0)) 3000 = 0
   \<and> \<not> pin_level board0 SHIFT_CLOCK
   \<and> addr_latch (writeEepromAddress 0x1234 SHIFT_DATA SHIFT_CLOCK board0) = 0x1234"
proof -
  note t = programming_sweep [of 0 0 board0]
  from t obtain u where u: "ucode_setup 0 0 board0 = Some u"
      "\<forall>a<8192. eeprom u (of_nat a) = ucode_image 0 0 a"
    by blast
  have i5: "ucode_image 0 0 5 = 0x0C"
    by (simp add: ucode_image_def ucode_getOutputByte_def isa_at_def controlWord_def isa_def
        shr_ulong_def signal_defs)
  have i3000: "ucode_image 0 0 3000 = 0"
    by (simp add: ucode_image_def)
  have "eeprom u (of_nat 5) = 0x0C" "eeprom u (of_nat 3000) = 0"
    using u(2) [rule_format, of 5] u(2) [rule_format, of 3000] i5 i3000 by simp_all
  moreover have c: "\<not> pin_level board0 SHIFT_CLOCK"
    by (simp add: board0_def)
  moreover have "addr_latch (writeEepromAddress 0x1234 SHIFT_DATA SHIFT_CLOCK board0) = 0x1234"
    using t c by blast
  ultimately show ?thesis
    by (simp add: u(1))
qed

text \<open>
  Claim C9. Started in any state, each sketch sends exactly \<open>Programming\<close>, one \<open>.\<close> per page
  of addresses written (8 pages of 4096 for \<open>sevenseg.ino\<close>, 16 pages of 512 for \<open>ucode.ino\<close>),
  a newline, \<open>Finished\<close>, a newline, and then the dump of the addresses from 0 (4096 of them,
  respectively 512): per byte two digits out of \<open>0123456789abcdef\<close>, high nibble first, then a
  space, or a newline where \<open>(address + 1) mod 16 = 0\<close>. The bytes dumped are those the sweep
  has written.
\<close>

theorem serial_output_format:
  "(\<exists>s'. sevenseg_setup s = Some s'
      \<and> serial s' = serial s @ ''Programming'' @ replicate 8 CHR ''.''
          @ [CHR 0x0A] @ ''Finished'' @ [CHR 0x0A]
          @ concat (map (\<lambda>i. dump_text i (sevenseg_image i)) [0..<4096]))
   \<and> (\<exists>s'. ucode_setup mro pci s = Some s'
      \<and> serial s' = serial s @ ''Programming'' @ replicate 16 CHR ''.''
          @ [CHR 0x0A] @ ''Finished'' @ [CHR 0x0A]
          @ concat (map (\<lambda>i. dump_text i (ucode_image mro pci i)) [0..<512]))
   \<and> dump_text i d = [hexdigits ! unat (drop_bit 4 d), hexdigits ! unat (d AND 15),
                       if (i + 1) mod 16 = 0 then CHR 0x0A else CHR '' '']
   \<and> unat (drop_bit 4 d) < 16 \<and> unat (d AND 15) < 16
   \<and> hexdigits = ''0123456789abcdef''
   \<and> dump_text 14 0xEB = ''eb '' \<and> dump_text 15 0x1E = ''1e'' @ [CHR 0x0A]"
proof -
  have p1: "\<exists>s'. sevenseg_setup s = Some s'
      \<and> serial s' = serial s @ ''Programming'' @ replicate 8 CHR ''.''
          @ [CHR 0x0A] @ ''Finished'' @ [CHR 0x0A]
          @ concat (map (\<lambda>i. dump_text i (sevenseg_image i)) [0..<4096])"
    using sevenseg_setup_run [of s] by blast
  have p2: "\<exists>s'. ucode_setup mro pci s = Some s'
      \<and> serial s' = serial s @ ''Programming'' @ replicate 16 CHR ''.''
          @ [CHR 0x0A] @ ''Finished'' @ [CHR 0x0A]
          @ concat (map (\<lambda>i. dump_text i (ucode_image mro pci i)) [0..<512])"
    using ucode_setup_run [of mro pci s] by blast
  have p3: "dump_text i d = [hexdigits ! unat (drop_bit 4 d), hexdigits ! unat (d AND 15),
                       if (i + 1) mod 16 = 0 then CHR 0x0A else CHR '' '']"
    by (simp add: dump_text_def)
  have p4: "unat (drop_bit 4 d) < 16" and p5: "unat (d AND 15) < 16"
    using hex_indices [of d] by simp_all
  have p6: "hexdigits = ''0123456789abcdef''"
    by (simp add: hexdigits_def)
  have p7: "dump_text 14 0xEB = ''eb ''" and p8: "dump_text 15 0x1E = ''1e'' @ [CHR 0x0A]"
    by (simp_all add: dump_text_def hexdigits_def)
  show ?thesis
    by (intro conjI) (fact p1 p2 p3 p4 p5 p6 p7 p8)+
qed

end
